theory Spec2Isabelle
  imports Main
begin

section \<open>League standings calculation (utils/standingsCalculator.js)\<close>

text \<open>
  A shallow embedding of \<^verbatim>\<open>calculateLeagueStandings\<close>. Identifiers are natural
  numbers (the \<^verbatim>\<open>int AUTO_INCREMENT\<close> keys of the schema), scores and counters are
  unbounded integers (JavaScript numbers far below \<open>2^53\<close>), strings are \<open>string\<close>.
\<close>

subsection \<open>Rows of the tables\<close>

record fixture =
  fixture_id :: nat
  leagueID :: nat
  homeTeam :: nat
  awayTeam :: nat
  status :: nat

record scorer =
  playerName :: string
  scoreType :: string

text \<open>
  The value stored in \<^verbatim>\<open>homeScorers\<close> / \<^verbatim>\<open>awayScorers\<close> as the calculator sees it:
  a falsy value (null, undefined, the empty string), an array of scorer objects, a string
  on which \<^verbatim>\<open>JSON.parse\<close> yields such an array, or a string / value on which
  \<^verbatim>\<open>JSON.parse\<close> or the following \<^verbatim>\<open>.filter\<close> raises.
\<close>

datatype scorersField =
    ScorersFalsy
  | ScorersArray "scorer list"
  | ScorersJson "scorer list"
  | ScorersMalformed

text \<open>
  \<^verbatim>\<open>homeScore\<close> / \<^verbatim>\<open>awayScore\<close> hold what \<^verbatim>\<open>parseInt\<close> reads off the stored
  value: \<open>Some n\<close> for an integer (or a string that starts with one), \<open>None\<close> where
  \<^verbatim>\<open>parseInt\<close> gives NaN.
\<close>

record result =
  fixtureID :: nat
  homeScore :: "int option"
  awayScore :: "int option"
  homeScorers :: scorersField
  awayScorers :: scorersField

record stats =
  teamID :: nat
  played :: int
  won :: int
  drawn :: int
  lost :: int
  pointsFor :: int
  pointsAgainst :: int
  pointsDifference :: int
  bonusPoints :: int
  points :: int

text \<open>The per-team accumulator; \<open>position\<close> is absent until the teams are ranked.\<close>

record teamStanding = stats +
  position :: "nat option"

text \<open>The payload \<^verbatim>\<open>standingData\<close> of a write, and a stored row of \<^verbatim>\<open>tblstandings\<close>.\<close>

record standingData = stats +
  leagueID :: nat

record standing = standingData +
  standing_id :: nat

subsection \<open>Aggregation\<close>

text \<open>\<^verbatim>\<open>parseInt(x) || 0\<close>\<close>

definition parseIntOr0 :: "int option \<Rightarrow> int" where
  "parseIntOr0 v = (case v of Some n \<Rightarrow> n | None \<Rightarrow> 0)"

text \<open>
  The decoding expression of the try-bonus block; \<open>None\<close> stands for an exception
  raised inside the \<^verbatim>\<open>try\<close>.
\<close>

fun decodeScorers :: "scorersField \<Rightarrow> scorer list option" where
  "decodeScorers ScorersFalsy = Some []"
| "decodeScorers (ScorersArray xs) = Some xs"
| "decodeScorers (ScorersJson xs) = Some xs"
| "decodeScorers ScorersMalformed = None"

definition countTries :: "scorer list \<Rightarrow> nat" where
  "countTries scorers = length (filter (\<lambda>s. scoreType s = ''try'') scorers)"

text \<open>
  The object \<^verbatim>\<open>standings\<close>, keyed by team id. A JavaScript object enumerates its
  integer keys in ascending order, so the entries are kept in that order.
\<close>

type_synonym standingsObj = "(nat \<times> teamStanding) list"

fun setProp :: "nat \<Rightarrow> 'v \<Rightarrow> (nat \<times> 'v) list \<Rightarrow> (nat \<times> 'v) list" where
  "setProp k v [] = [(k, v)]"
| "setProp k v (e # es) =
     (if fst e = k then (k, v) # es
      else if k < fst e then (k, v) # e # es
      else e # setProp k v es)"

definition Object_values :: "(nat \<times> 'v) list \<Rightarrow> 'v list" where
  "Object_values obj = map snd obj"

text \<open>
  A mutation through the reference \<^verbatim>\<open>standings[k]\<close>. Home and away may be the same
  object; the mutations are applied one after the other, as the statements are.
\<close>

definition modify :: "nat \<Rightarrow> ('v \<Rightarrow> 'v) \<Rightarrow> (nat \<times> 'v) list \<Rightarrow> (nat \<times> 'v) list" where
  "modify k f obj = map (\<lambda>e. if fst e = k then (fst e, f (snd e)) else e) obj"

definition leagueFixtures :: "nat \<Rightarrow> fixture list \<Rightarrow> fixture list" where
  "leagueFixtures L allFixtures =
     filter (\<lambda>f. fixture.leagueID f = L \<and> status f = 2) allFixtures"

definition resultsMap :: "result list \<Rightarrow> (nat \<rightharpoonup> result)" where
  "resultsMap allResults = fold (\<lambda>r m. m(fixtureID r \<mapsto> r)) allResults Map.empty"

text \<open>The \<^verbatim>\<open>Set\<close> of team ids, in insertion order.\<close>

definition Set_add :: "nat \<Rightarrow> nat list \<Rightarrow> nat list" where
  "Set_add x s = (if x \<in> set s then s else s @ [x])"

definition teamIDs :: "fixture list \<Rightarrow> nat list" where
  "teamIDs fs = fold (\<lambda>f s. Set_add (awayTeam f) (Set_add (homeTeam f) s)) fs []"

definition zeroStanding :: "nat \<Rightarrow> teamStanding" where
  "zeroStanding t =
     \<lparr>teamID = t, played = 0, won = 0, drawn = 0, lost = 0, pointsFor = 0,
      pointsAgainst = 0, pointsDifference = 0, bonusPoints = 0, points = 0,
      position = None\<rparr>"

definition initStandings :: "nat list \<Rightarrow> standingsObj" where
  "initStandings ids = fold (\<lambda>t obj. setProp t (zeroStanding t) obj) ids []"

text \<open>Lines 129-157: win / draw / loss and the losing bonus.\<close>

definition awardMatchPoints :: "nat \<Rightarrow> nat \<Rightarrow> int \<Rightarrow> int \<Rightarrow> standingsObj \<Rightarrow> standingsObj" where
  "awardMatchPoints h a hs as st =
     (if hs > as then
        (let st = modify h (\<lambda>t. t\<lparr>won := won t + 1\<rparr>) st;
             st = modify h (\<lambda>t. t\<lparr>points := points t + 4\<rparr>) st;
             st = modify a (\<lambda>t. t\<lparr>lost := lost t + 1\<rparr>) st
         in if as + 7 \<ge> hs then
              (let st = modify a (\<lambda>t. t\<lparr>bonusPoints := bonusPoints t + 1\<rparr>) st
               in modify a (\<lambda>t. t\<lparr>points := points t + 1\<rparr>) st)
            else st)
      else if as > hs then
        (let st = modify a (\<lambda>t. t\<lparr>won := won t + 1\<rparr>) st;
             st = modify a (\<lambda>t. t\<lparr>points := points t + 4\<rparr>) st;
             st = modify h (\<lambda>t. t\<lparr>lost := lost t + 1\<rparr>) st
         in if hs + 7 \<ge> as then
              (let st = modify h (\<lambda>t. t\<lparr>bonusPoints := bonusPoints t + 1\<rparr>) st
               in modify h (\<lambda>t. t\<lparr>points := points t + 1\<rparr>) st)
            else st)
      else
        (let st = modify h (\<lambda>t. t\<lparr>drawn := drawn t + 1\<rparr>) st;
             st = modify a (\<lambda>t. t\<lparr>drawn := drawn t + 1\<rparr>) st;
             st = modify h (\<lambda>t. t\<lparr>points := points t + 2\<rparr>) st
         in modify a (\<lambda>t. t\<lparr>points := points t + 2\<rparr>) st))"

text \<open>
  Lines 159-179: the try bonus. Both fields are decoded and counted before either award,
  inside one \<^verbatim>\<open>try\<close>; an exception leaves the standings as they were.
\<close>

definition awardTryBonus :: "nat \<Rightarrow> nat \<Rightarrow> result \<Rightarrow> standingsObj \<Rightarrow> standingsObj" where
  "awardTryBonus h a r st =
     (case decodeScorers (homeScorers r) of
        None \<Rightarrow> st
      | Some homeList \<Rightarrow>
         (case decodeScorers (awayScorers r) of
            None \<Rightarrow> st
          | Some awayList \<Rightarrow>
             (let homeTries = countTries homeList;
                  awayTries = countTries awayList;
                  st = (if homeTries \<ge> 4 then
                          modify h (\<lambda>t. t\<lparr>points := points t + 1\<rparr>)
                            (modify h (\<lambda>t. t\<lparr>bonusPoints := bonusPoints t + 1\<rparr>) st)
                        else st)
              in if awayTries \<ge> 4 then
                   modify a (\<lambda>t. t\<lparr>points := points t + 1\<rparr>)
                     (modify a (\<lambda>t. t\<lparr>bonusPoints := bonusPoints t + 1\<rparr>) st)
                 else st)))"

text \<open>Lines 108-184: the body of the loop over the league's completed fixtures.\<close>

definition processFixture :: "(nat \<rightharpoonup> result) \<Rightarrow> fixture \<Rightarrow> standingsObj \<Rightarrow> standingsObj" where
  "processFixture rm f st =
     (case rm (fixture_id f) of
        None \<Rightarrow> st
      | Some r \<Rightarrow>
         (let h = homeTeam f;
              a = awayTeam f;
              hs = parseIntOr0 (homeScore r);
              as = parseIntOr0 (awayScore r);
              st = modify h (\<lambda>t. t\<lparr>played := played t + 1\<rparr>) st;
              st = modify a (\<lambda>t. t\<lparr>played := played t + 1\<rparr>) st;
              st = modify h (\<lambda>t. t\<lparr>pointsFor := pointsFor t + hs\<rparr>) st;
              st = modify h (\<lambda>t. t\<lparr>pointsAgainst := pointsAgainst t + as\<rparr>) st;
              st = modify a (\<lambda>t. t\<lparr>pointsFor := pointsFor t + as\<rparr>) st;
              st = modify a (\<lambda>t. t\<lparr>pointsAgainst := pointsAgainst t + hs\<rparr>) st;
              st = awardMatchPoints h a hs as st;
              st = awardTryBonus h a r st;
              st = modify h (\<lambda>t. t\<lparr>pointsDifference := pointsFor t - pointsAgainst t\<rparr>) st
          in modify a (\<lambda>t. t\<lparr>pointsDifference := pointsFor t - pointsAgainst t\<rparr>) st))"

definition computeStandings :: "nat \<Rightarrow> fixture list \<Rightarrow> result list \<Rightarrow> standingsObj" where
  "computeStandings L allFixtures allResults =
     (let fs = leagueFixtures L allFixtures
      in fold (processFixture (resultsMap allResults)) fs (initStandings (teamIDs fs)))"

subsection \<open>Ranking\<close>

text \<open>The comparator handed to \<^verbatim>\<open>Array.prototype.sort\<close>.\<close>

definition compareTeams :: "teamStanding \<Rightarrow> teamStanding \<Rightarrow> int" where
  "compareTeams a b =
     (if points b \<noteq> points a then points b - points a
      else if pointsDifference b \<noteq> pointsDifference a
        then pointsDifference b - pointsDifference a
      else pointsFor b - pointsFor a)"

text \<open>
  \<^verbatim>\<open>sort\<close> is stable: an element goes in front of the first one it does not have to
  follow, and elements that compare equal keep their order.
\<close>

fun sortInsert :: "('a \<Rightarrow> 'a \<Rightarrow> int) \<Rightarrow> 'a \<Rightarrow> 'a list \<Rightarrow> 'a list" where
  "sortInsert cmp x [] = [x]"
| "sortInsert cmp x (y # ys) =
     (if cmp x y \<le> 0 then x # y # ys else y # sortInsert cmp x ys)"

definition Array_sort :: "('a \<Rightarrow> 'a \<Rightarrow> int) \<Rightarrow> 'a list \<Rightarrow> 'a list" where
  "Array_sort cmp xs = foldr (sortInsert cmp) xs []"

fun assignPositions :: "nat \<Rightarrow> teamStanding list \<Rightarrow> teamStanding list" where
  "assignPositions index [] = []"
| "assignPositions index (team # rest) =
     team\<lparr>position := Some (index + 1)\<rparr> # assignPositions (Suc index) rest"

definition sortedTeams :: "nat \<Rightarrow> fixture list \<Rightarrow> result list \<Rightarrow> teamStanding list" where
  "sortedTeams L allFixtures allResults =
     assignPositions 0
       (Array_sort compareTeams (Object_values (computeStandings L allFixtures allResults)))"

subsection \<open>The DataStore\<close>

text \<open>
  Modelled from the spec: the DataStore behind \<^verbatim>\<open>crudRequest\<close> (the REST backend is not
  part of the sources). Its three tables are lists of rows. A request is answered in one
  of three ways: it is served (status 200; a read returns the table, a write is applied),
  it is refused with a status code and no effect, or the exchange raises with a message
  (no token, network error) and no effect. \<open>requests\<close> counts the calls of
  \<^verbatim>\<open>crudRequest\<close> made so far; the environment \<open>env\<close> gives the answer to the n-th one.
\<close>

datatype outcome = Served | Refused nat | Thrown string

record world =
  tblfixtures :: "fixture list"
  tblresults :: "result list"
  tblstandings :: "standing list"
  requests :: nat

text \<open>
  \<^verbatim>\<open>crudRequest\<close> (authHelpers.js) hands the answer of the backend to its caller, except
  that an answer with status 403 clears the session and raises.
\<close>

definition crudRequest :: "(nat \<Rightarrow> outcome) \<Rightarrow> nat \<Rightarrow> outcome" where
  "crudRequest env n =
     (case env n of
        Served \<Rightarrow> Served
      | Refused code \<Rightarrow>
          (if code = 403 then Thrown ''Session expired. Please login again.''
           else Refused code)
      | Thrown m \<Rightarrow> Thrown m)"

text \<open>
  Modelled from the spec: a served read answers with status 200 and the rows of the table
  (what \<^verbatim>\<open>data.records || data\<close> yields); a refused one carries its status code and no
  rows. \<open>Threw\<close> is an exception raised by the call.
\<close>

datatype 'a reply = Threw string | Reply nat "'a list"

definition crudRead :: "(nat \<Rightarrow> outcome) \<Rightarrow> (world \<Rightarrow> 'a list) \<Rightarrow> world \<Rightarrow> 'a reply \<times> world" where
  "crudRead env tbl w =
     (case crudRequest env (requests w) of
        Served \<Rightarrow> Reply 200 (tbl w)
      | Refused code \<Rightarrow> Reply code []
      | Thrown m \<Rightarrow> Threw m,
      w\<lparr>requests := requests w + 1\<rparr>)"

text \<open>
  Modelled from the spec: a served create appends the record to the table under the next
  free key of the \<^verbatim>\<open>AUTO_INCREMENT\<close> column. The caller does not look at the reply of
  a write, so only an exception is reported back.
\<close>

definition freshId :: "standing list \<Rightarrow> nat" where
  "freshId rows = Suc (fold max (map standing_id rows) 0)"

definition storeRow :: "standingData \<Rightarrow> nat \<Rightarrow> standing" where
  "storeRow d i =
     \<lparr>teamID = teamID d, played = played d, won = won d, drawn = drawn d, lost = lost d,
      pointsFor = pointsFor d, pointsAgainst = pointsAgainst d,
      pointsDifference = pointsDifference d, bonusPoints = bonusPoints d, points = points d,
      leagueID = leagueID d, standing_id = i\<rparr>"

definition crudCreate :: "(nat \<Rightarrow> outcome) \<Rightarrow> standingData \<Rightarrow> world \<Rightarrow> string option \<times> world" where
  "crudCreate env d w =
     (case crudRequest env (requests w) of
        Served \<Rightarrow>
          (None, w\<lparr>tblstandings := tblstandings w @ [storeRow d (freshId (tblstandings w))],
                   requests := requests w + 1\<rparr>)
      | Refused code \<Rightarrow> (None, w\<lparr>requests := requests w + 1\<rparr>)
      | Thrown m \<Rightarrow> (Some m, w\<lparr>requests := requests w + 1\<rparr>))"

text \<open>
  Modelled from the spec: a served update with \<^verbatim>\<open>conditions: { id }\<close> overwrites the
  payload's columns of every row with that key.
\<close>

definition crudUpdate :: "(nat \<Rightarrow> outcome) \<Rightarrow> standingData \<Rightarrow> nat \<Rightarrow> world \<Rightarrow> string option \<times> world" where
  "crudUpdate env d i w =
     (case crudRequest env (requests w) of
        Served \<Rightarrow>
          (None, w\<lparr>tblstandings :=
                      map (\<lambda>s. if standing_id s = i then storeRow d i else s) (tblstandings w),
                   requests := requests w + 1\<rparr>)
      | Refused code \<Rightarrow> (None, w\<lparr>requests := requests w + 1\<rparr>)
      | Thrown m \<Rightarrow> (Some m, w\<lparr>requests := requests w + 1\<rparr>))"

subsection \<open>Persistence and the operation\<close>

definition mkStandingData :: "nat \<Rightarrow> teamStanding \<Rightarrow> standingData" where
  "mkStandingData L team =
     \<lparr>teamID = teamID team, played = played team, won = won team, drawn = drawn team,
      lost = lost team, pointsFor = pointsFor team, pointsAgainst = pointsAgainst team,
      pointsDifference = pointsDifference team, bonusPoints = bonusPoints team,
      points = points team, leagueID = L\<rparr>"

text \<open>
  Lines 200-240, the body of the persistence loop for one ranked team: re-read the whole
  standings table, look for the row of \<open>(leagueID, teamID)\<close>, update it by its id or
  create a new row. The first component is the message of an exception raised by a
  request, if any; the results of the writes are not looked at.
\<close>

definition persistTeam :: "(nat \<Rightarrow> outcome) \<Rightarrow> nat \<Rightarrow> teamStanding \<Rightarrow> world \<Rightarrow> string option \<times> world" where
  "persistTeam env L team w =
     (case crudRead env tblstandings w of
        (Threw m, w1) \<Rightarrow> (Some m, w1)
      | (Reply code records, w1) \<Rightarrow>
         (let existingStandings = (if code = 200 then records else []);
              existing = find (\<lambda>s. leagueID s = L \<and> teamID s = teamID team) existingStandings;
              standingData = mkStandingData L team
          in case existing of
               Some e \<Rightarrow> crudUpdate env standingData (standing_id e) w1
             | None \<Rightarrow> crudCreate env standingData w1))"

text \<open>Lines 199-241: the loop; an exception leaves it, with the world as it is then.\<close>

fun persistTeams :: "(nat \<Rightarrow> outcome) \<Rightarrow> nat \<Rightarrow> teamStanding list \<Rightarrow> world \<Rightarrow> string option \<times> world" where
  "persistTeams env L [] w = (None, w)"
| "persistTeams env L (team # rest) w =
     (case persistTeam env L team w of
        (Some m, w2) \<Rightarrow> (Some m, w2)
      | (None, w2) \<Rightarrow> persistTeams env L rest w2)"

record calcResult =
  success :: bool
  message :: string

definition calculateLeagueStandings ::
  "string \<Rightarrow> (nat \<Rightarrow> outcome) \<Rightarrow> nat \<Rightarrow> string \<Rightarrow> world \<Rightarrow> calcResult \<times> world" where
  "calculateLeagueStandings CURRENT_SEASON env L leagueSeason w =
     (if leagueSeason \<noteq> CURRENT_SEASON then
        (\<lparr>success = True, message = ''Not current season''\<rparr>, w)
      else
        (case crudRead env tblfixtures w of
           (Threw m, w1) \<Rightarrow> (\<lparr>success = False, message = m\<rparr>, w1)
         | (Reply code allFixtures, w1) \<Rightarrow>
            if code \<noteq> 200 then
              (\<lparr>success = False, message = ''Failed to fetch fixtures''\<rparr>, w1)
            else
              (case crudRead env tblresults w1 of
                 (Threw m, w2) \<Rightarrow> (\<lparr>success = False, message = m\<rparr>, w2)
               | (Reply code2 allResults, w2) \<Rightarrow>
                  if code2 \<noteq> 200 then
                    (\<lparr>success = False, message = ''Failed to fetch results''\<rparr>, w2)
                  else
                    (case persistTeams env L (sortedTeams L allFixtures allResults) w2 of
                       (Some m, w3) \<Rightarrow> (\<lparr>success = False, message = m\<rparr>, w3)
                     | (None, w3) \<Rightarrow>
                        (\<lparr>success = True, message = ''Standings updated successfully''\<rparr>, w3)))))"

subsection \<open>One iteration on a responsive store\<close>

text \<open>
  What one iteration of the persistence loop does to \<^verbatim>\<open>tblstandings\<close> when its read
  and its write are both served (lines 209-240 with the two replies inlined).
\<close>

definition upsert :: "nat \<Rightarrow> teamStanding \<Rightarrow> standing list \<Rightarrow> standing list" where
  "upsert L team rows =
     (case find (\<lambda>s. leagueID s = L \<and> teamID s = teamID team) rows of
        Some e \<Rightarrow>
          map (\<lambda>s. if standing_id s = standing_id e
                    then storeRow (mkStandingData L team) (standing_id e) else s) rows
      | None \<Rightarrow> rows @ [storeRow (mkStandingData L team) (freshId rows)])"

text \<open>The row found for a team holds exactly the data computed for it.\<close>

definition upToDate :: "nat \<Rightarrow> teamStanding \<Rightarrow> standing list \<Rightarrow> bool" where
  "upToDate L team rows =
     (case find (\<lambda>s. leagueID s = L \<and> teamID s = teamID team) rows of
        None \<Rightarrow> False
      | Some e \<Rightarrow> e = storeRow (mkStandingData L team) (standing_id e))"

text \<open>The pair that the uniqueness invariant of \<^verbatim>\<open>tblstandings\<close> is about.\<close>

definition standingKey :: "standing \<Rightarrow> nat \<times> nat" where
  "standingKey s = (leagueID s, teamID s)"

subsection \<open>Example data\<close>

text \<open>A completed fixture of league 1, team 1 at home to team 2, and results for it.\<close>

definition exampleFixture :: fixture where
  "exampleFixture = \<lparr>fixture_id = 1, leagueID = 1, homeTeam = 1, awayTeam = 2, status = 2\<rparr>"

definition tries :: "nat \<Rightarrow> scorer list" where
  "tries n = replicate n \<lparr>playerName = ''Player'', scoreType = ''try''\<rparr>"

definition exampleResult :: "int \<Rightarrow> int \<Rightarrow> scorersField \<Rightarrow> scorersField \<Rightarrow> result" where
  "exampleResult hs as homeField awayField =
     \<lparr>fixtureID = 1, homeScore = Some hs, awayScore = Some as,
      homeScorers = homeField, awayScorers = awayField\<rparr>"

definition exampleWorld :: "result \<Rightarrow> standing list \<Rightarrow> world" where
  "exampleWorld r rows =
     \<lparr>tblfixtures = [exampleFixture], tblresults = [r], tblstandings = rows, requests = 0\<rparr>"

definition exampleRanking :: "teamStanding list" where
  "exampleRanking = sortedTeams 1 [exampleFixture] [exampleResult 13 20 ScorersFalsy ScorersFalsy]"

definition exampleRow :: "nat \<Rightarrow> nat \<Rightarrow> nat \<Rightarrow> int \<Rightarrow> standing" where
  "exampleRow i L t p =
     \<lparr>teamID = t, played = 1, won = 0, drawn = 0, lost = 0, pointsFor = 0,
      pointsAgainst = 0, pointsDifference = 0, bonusPoints = 0, points = p,
      leagueID = L, standing_id = i\<rparr>"

text \<open>
  A world whose standings table holds a stale row of team 1 in league 1, a row of another
  league and a row of a team of league 1 that has no completed fixture.
\<close>

definition staleWorld :: world where
  "staleWorld = exampleWorld (exampleResult 20 13 ScorersFalsy ScorersFalsy)
                  [exampleRow 1 1 1 0, exampleRow 2 2 1 9, exampleRow 3 1 9 6]"

text \<open>DataStores: one that serves every request, and two that fail on request \<open>k\<close> only.\<close>

definition reliable :: "nat \<Rightarrow> outcome" where
  "reliable n = Served"

definition refusingAt :: "nat \<Rightarrow> nat \<Rightarrow> nat \<Rightarrow> outcome" where
  "refusingAt k code n = (if n = k then Refused code else Served)"

definition throwingAt :: "nat \<Rightarrow> string \<Rightarrow> nat \<Rightarrow> outcome" where
  "throwingAt k m n = (if n = k then Thrown m else Served)"

section \<open>Properties\<close>

subsection \<open>The season gate\<close>

text \<open>
  C5: a call whose \<open>leagueSeason\<close> differs from the current season returns success with
  the message "Not current season" and leaves the whole world as it was: no table changes
  and no request is issued (the request counter is part of the world).
\<close>

theorem season_gate_skips:
  assumes "leagueSeason \<noteq> CURRENT_SEASON"
  shows "calculateLeagueStandings CURRENT_SEASON env L leagueSeason w =
           (\<lparr>success = True, message = ''Not current season''\<rparr>, w)"
  using assms by (simp add: calculateLeagueStandings_def)

theorem season_gate_skips_witness:
  "''2024-25'' \<noteq> ''2025-26'' \<and>
   calculateLeagueStandings ''2025-26'' (\<lambda>n. Served) 1 ''2024-25''
       (exampleWorld (exampleResult 20 13 ScorersFalsy ScorersFalsy) []) =
     (\<lparr>success = True, message = ''Not current season''\<rparr>,
      exampleWorld (exampleResult 20 13 ScorersFalsy ScorersFalsy) [])"
proof -
  have h: "''2024-25'' \<noteq> ''2025-26''" by simp
  from h season_gate_skips [OF h] show ?thesis by blast
qed

subsection \<open>Failing reads of fixtures and results\<close>

text \<open>
  C6: in the current season, when the fixtures read is answered with a status other than
  200, or the fixtures read has status 200 and the results read is answered with a status
  other than 200, the operation returns \<open>success = False\<close> with the message of the error
  it raised for that read, and the world differs from the initial one in the request
  counter only: no standing row is created or updated. The same holds, with the message
  of the exception, when one of the two reads raises (as it does on a status 403).
\<close>

theorem read_failure_aborts:
  assumes "leagueSeason = CURRENT_SEASON" and "c \<noteq> 200"
  shows "(crudRequest env (requests w) = Refused c \<longrightarrow>
            calculateLeagueStandings CURRENT_SEASON env L leagueSeason w =
              (\<lparr>success = False, message = ''Failed to fetch fixtures''\<rparr>,
               w\<lparr>requests := requests w + 1\<rparr>)) \<and>
         (crudRequest env (requests w) = Thrown m \<longrightarrow>
            calculateLeagueStandings CURRENT_SEASON env L leagueSeason w =
              (\<lparr>success = False, message = m\<rparr>, w\<lparr>requests := requests w + 1\<rparr>)) \<and>
         ((crudRequest env (requests w) = Served \<or> crudRequest env (requests w) = Refused 200) \<and>
          crudRequest env (requests w + 1) = Refused c \<longrightarrow>
            calculateLeagueStandings CURRENT_SEASON env L leagueSeason w =
              (\<lparr>success = False, message = ''Failed to fetch results''\<rparr>,
               w\<lparr>requests := requests w + 2\<rparr>)) \<and>
         ((crudRequest env (requests w) = Served \<or> crudRequest env (requests w) = Refused 200) \<and>
          crudRequest env (requests w + 1) = Thrown m \<longrightarrow>
            calculateLeagueStandings CURRENT_SEASON env L leagueSeason w =
              (\<lparr>success = False, message = m\<rparr>, w\<lparr>requests := requests w + 2\<rparr>))"
  using assms by (auto simp add: calculateLeagueStandings_def crudRead_def)

theorem read_failure_aborts_witness:
  "calculateLeagueStandings ''2025-26'' (\<lambda>n. if n = 0 then Refused 500 else Served) 1 ''2025-26''
       (exampleWorld (exampleResult 20 13 ScorersFalsy ScorersFalsy) []) =
     (\<lparr>success = False, message = ''Failed to fetch fixtures''\<rparr>,
      (exampleWorld (exampleResult 20 13 ScorersFalsy ScorersFalsy) [])\<lparr>requests := 1\<rparr>) \<and>
   calculateLeagueStandings ''2025-26'' (\<lambda>n. if n = 1 then Refused 500 else Served) 1 ''2025-26''
       (exampleWorld (exampleResult 20 13 ScorersFalsy ScorersFalsy) []) =
     (\<lparr>success = False, message = ''Failed to fetch results''\<rparr>,
      (exampleWorld (exampleResult 20 13 ScorersFalsy ScorersFalsy) [])\<lparr>requests := 2\<rparr>)"
proof -
  let ?w = "exampleWorld (exampleResult 20 13 ScorersFalsy ScorersFalsy) []"
  have r: "requests ?w = 0" by (simp add: exampleWorld_def)
  have c: "(500::nat) \<noteq> 200" by simp
  from read_failure_aborts [OF refl c, where env = "\<lambda>n. if n = 0 then Refused 500 else Served"
      and w = ?w and L = 1 and CURRENT_SEASON = "''2025-26''"]
  have 1: "calculateLeagueStandings ''2025-26'' (\<lambda>n. if n = 0 then Refused 500 else Served) 1
             ''2025-26'' ?w =
           (\<lparr>success = False, message = ''Failed to fetch fixtures''\<rparr>, ?w\<lparr>requests := 1\<rparr>)"
    by (simp add: r crudRequest_def)
  from read_failure_aborts [OF refl c, where env = "\<lambda>n. if n = 1 then Refused 500 else Served"
      and w = ?w and L = 1 and CURRENT_SEASON = "''2025-26''"]
  have 2: "calculateLeagueStandings ''2025-26'' (\<lambda>n. if n = 1 then Refused 500 else Served) 1
             ''2025-26'' ?w =
           (\<lparr>success = False, message = ''Failed to fetch results''\<rparr>, ?w\<lparr>requests := 2\<rparr>)"
    by (simp add: r crudRequest_def)
  from 1 2 show ?thesis by blast
qed

subsection \<open>The ranking\<close>

lemma compareTeams_le_iff:
  "compareTeams a b \<le> 0 \<longleftrightarrow>
     (points a > points b
      \<or> (points a = points b \<and> pointsDifference a > pointsDifference b)
      \<or> (points a = points b \<and> pointsDifference a = pointsDifference b
          \<and> pointsFor a \<ge> pointsFor b))"
  by (auto simp add: compareTeams_def)

lemma compareTeams_total: "\<not> compareTeams a b \<le> 0 \<Longrightarrow> compareTeams b a \<le> 0"
  by (auto simp add: compareTeams_def split: if_splits)

lemma compareTeams_trans:
  "compareTeams a b \<le> 0 \<Longrightarrow> compareTeams b c \<le> 0 \<Longrightarrow> compareTeams a c \<le> 0"
  unfolding compareTeams_le_iff by linarith

lemma set_sortInsert: "set (sortInsert cmp x ys) = insert x (set ys)"
  by (induction ys) auto

lemma length_sortInsert: "length (sortInsert cmp x ys) = Suc (length ys)"
  by (induction ys) auto

lemma sorted_sortInsert:
  "sorted_wrt (\<lambda>a b. compareTeams a b \<le> 0) ys \<Longrightarrow>
   sorted_wrt (\<lambda>a b. compareTeams a b \<le> 0) (sortInsert compareTeams x ys)"
proof (induction ys)
  case Nil
  then show ?case by simp
next
  case (Cons y ys)
  show ?case
  proof (cases "compareTeams x y \<le> 0")
    case True
    with Cons.prems show ?thesis
      by (auto intro: compareTeams_trans)
  next
    case False
    then have "compareTeams y x \<le> 0" by (rule compareTeams_total)
    with False Cons show ?thesis
      by (auto simp add: set_sortInsert)
  qed
qed

lemma Array_sort_Cons: "Array_sort cmp (x # xs) = sortInsert cmp x (Array_sort cmp xs)"
  by (simp add: Array_sort_def)

lemma sorted_Array_sort:
  "sorted_wrt (\<lambda>a b. compareTeams a b \<le> 0) (Array_sort compareTeams xs)"
  by (induction xs) (simp_all add: Array_sort_Cons sorted_sortInsert, simp add: Array_sort_def)

lemma set_Array_sort: "set (Array_sort cmp xs) = set xs"
  unfolding Array_sort_def by (induction xs) (simp_all add: set_sortInsert)

lemma length_Array_sort: "length (Array_sort cmp xs) = length xs"
  unfolding Array_sort_def by (induction xs) (simp_all add: length_sortInsert)

lemma length_assignPositions: "length (assignPositions k xs) = length xs"
  by (induction k xs rule: assignPositions.induct) auto

lemma nth_assignPositions:
  "i < length xs \<Longrightarrow> assignPositions k xs ! i = (xs ! i)\<lparr>position := Some (k + i + 1)\<rparr>"
proof (induction k xs arbitrary: i rule: assignPositions.induct)
  case (1 index)
  then show ?case by simp
next
  case (2 index team rest)
  then show ?case by (cases i) auto
qed

text \<open>
  C1: in the list \<open>sortedTeams\<close> that the operation ranks and then persists, every team
  and the one right after it satisfy: more points, or equal points and a larger points
  difference, or both equal and at least as many points for; and the team at index \<open>i\<close>
  carries position \<open>i + 1\<close>.
\<close>

theorem ranking_invariant:
  assumes "out = sortedTeams L allFixtures allResults"
  shows "(\<forall>i. Suc i < length out \<longrightarrow>
            (points (out ! i) > points (out ! Suc i)
             \<or> (points (out ! i) = points (out ! Suc i)
                 \<and> pointsDifference (out ! i) > pointsDifference (out ! Suc i))
             \<or> (points (out ! i) = points (out ! Suc i)
                 \<and> pointsDifference (out ! i) = pointsDifference (out ! Suc i)
                 \<and> pointsFor (out ! i) \<ge> pointsFor (out ! Suc i))))
         \<and> (\<forall>i. i < length out \<longrightarrow> position (out ! i) = Some (i + 1))"
proof -
  define ys where
    "ys = Array_sort compareTeams (Object_values (computeStandings L allFixtures allResults))"
  have out: "out = assignPositions 0 ys"
    using assms by (simp add: sortedTeams_def ys_def)
  have srt: "sorted_wrt (\<lambda>a b. compareTeams a b \<le> 0) ys"
    unfolding ys_def by (rule sorted_Array_sort)
  have adj: "compareTeams (ys ! i) (ys ! Suc i) \<le> 0" if "Suc i < length ys" for i
    using srt that by (simp add: sorted_wrt_iff_nth_less)
  have pos: "position (out ! i) = Some (i + 1)" if "i < length out" for i
    using that by (simp add: out length_assignPositions nth_assignPositions)
  have rank: "points (out ! i) > points (out ! Suc i)
             \<or> (points (out ! i) = points (out ! Suc i)
                 \<and> pointsDifference (out ! i) > pointsDifference (out ! Suc i))
             \<or> (points (out ! i) = points (out ! Suc i)
                 \<and> pointsDifference (out ! i) = pointsDifference (out ! Suc i)
                 \<and> pointsFor (out ! i) \<ge> pointsFor (out ! Suc i))"
    if "Suc i < length out" for i
  proof -
    from that have l: "Suc i < length ys" by (simp add: out length_assignPositions)
    then have li: "i < length ys" by simp
    from adj [OF l] show ?thesis
      by (simp add: compareTeams_le_iff out nth_assignPositions l li)
  qed
  from pos rank show ?thesis by blast
qed

theorem ranking_invariant_witness:
  "Suc 0 < length exampleRanking
   \<and> (points (exampleRanking ! 0) > points (exampleRanking ! Suc 0)
      \<or> (points (exampleRanking ! 0) = points (exampleRanking ! Suc 0)
          \<and> pointsDifference (exampleRanking ! 0) > pointsDifference (exampleRanking ! Suc 0))
      \<or> (points (exampleRanking ! 0) = points (exampleRanking ! Suc 0)
          \<and> pointsDifference (exampleRanking ! 0) = pointsDifference (exampleRanking ! Suc 0)
          \<and> pointsFor (exampleRanking ! 0) \<ge> pointsFor (exampleRanking ! Suc 0)))
   \<and> position (exampleRanking ! 0) = Some (0 + 1)"
proof -
  have len: "Suc 0 < length exampleRanking" by code_simp
  then have len0: "0 < length exampleRanking" by (rule Suc_lessD)
  note t = ranking_invariant [OF exampleRanking_def]
  from t len len0 show ?thesis by blast
qed

subsection \<open>Match points and bonus points\<close>

lemma map_of_modify:
  "map_of (modify k f st) k' = (if k' = k then map_option f (map_of st k) else map_of st k')"
  by (induction st) (auto simp add: modify_def)

text \<open>
  What a fixture with a result does to the rows of its two teams. \<open>tbH\<close> and \<open>tbA\<close>
  are the try bonuses of lines 159-179: 1 when both scorer fields decode and the team's
  own list has four or more tries, 0 otherwise.
\<close>

lemma processFixture_effect:
  assumes "rm (fixture_id f) = Some r"
    and "homeTeam f \<noteq> awayTeam f"
    and "map_of st (homeTeam f) = Some H"
    and "map_of st (awayTeam f) = Some A"
    and "hs = parseIntOr0 (homeScore r)"
    and "as = parseIntOr0 (awayScore r)"
    and "tbH = (case decodeScorers (homeScorers r) of None \<Rightarrow> 0
                | Some hl \<Rightarrow> (case decodeScorers (awayScorers r) of None \<Rightarrow> 0
                    | Some al \<Rightarrow> if countTries hl \<ge> 4 then 1 else 0))"
    and "tbA = (case decodeScorers (homeScorers r) of None \<Rightarrow> 0
                | Some hl \<Rightarrow> (case decodeScorers (awayScorers r) of None \<Rightarrow> 0
                    | Some al \<Rightarrow> if countTries al \<ge> 4 then 1 else 0))"
  shows "map_option (\<lambda>t. (won t, lost t, bonusPoints t, points t))
             (map_of (processFixture rm f st) (homeTeam f)) =
           Some (won H + (if hs > as then 1 else 0),
                 lost H + (if as > hs then 1 else 0),
                 bonusPoints H + (if as > hs \<and> hs + 7 \<ge> as then 1 else 0) + tbH,
                 points H + (if hs > as then 4 else if as > hs then 0 else 2)
                          + (if as > hs \<and> hs + 7 \<ge> as then 1 else 0) + tbH)"
    and "map_option (\<lambda>t. (won t, lost t, bonusPoints t, points t))
             (map_of (processFixture rm f st) (awayTeam f)) =
           Some (won A + (if as > hs then 1 else 0),
                 lost A + (if hs > as then 1 else 0),
                 bonusPoints A + (if hs > as \<and> as + 7 \<ge> hs then 1 else 0) + tbA,
                 points A + (if as > hs then 4 else if hs > as then 0 else 2)
                          + (if hs > as \<and> as + 7 \<ge> hs then 1 else 0) + tbA)"
proof -
  show "map_option (\<lambda>t. (won t, lost t, bonusPoints t, points t))
             (map_of (processFixture rm f st) (homeTeam f)) =
           Some (won H + (if hs > as then 1 else 0),
                 lost H + (if as > hs then 1 else 0),
                 bonusPoints H + (if as > hs \<and> hs + 7 \<ge> as then 1 else 0) + tbH,
                 points H + (if hs > as then 4 else if as > hs then 0 else 2)
                          + (if as > hs \<and> hs + 7 \<ge> as then 1 else 0) + tbH)"
    using assms
    by (cases "decodeScorers (homeScorers r)"; cases "decodeScorers (awayScorers r)")
       (simp_all add: processFixture_def awardMatchPoints_def awardTryBonus_def
          map_of_modify Let_def)
  show "map_option (\<lambda>t. (won t, lost t, bonusPoints t, points t))
             (map_of (processFixture rm f st) (awayTeam f)) =
           Some (won A + (if as > hs then 1 else 0),
                 lost A + (if hs > as then 1 else 0),
                 bonusPoints A + (if hs > as \<and> as + 7 \<ge> hs then 1 else 0) + tbA,
                 points A + (if as > hs then 4 else if hs > as then 0 else 2)
                          + (if hs > as \<and> as + 7 \<ge> hs then 1 else 0) + tbA)"
    using assms
    by (cases "decodeScorers (homeScorers r)"; cases "decodeScorers (awayScorers r)")
       (simp_all add: processFixture_def awardMatchPoints_def awardTryBonus_def
          map_of_modify Let_def)
qed

text \<open>
  C3, counterexample: a 27-20 home win (margin 7) in which the away team scored four
  tries; over the fixture the losing team gains 2 bonus points and 2 league points, one of
  each from the losing bonus and one from the try bonus.
\<close>

theorem losing_bonus_with_tries_counterexample:
  "map_option bonusPoints
     (map_of (computeStandings 1 [exampleFixture]
                [exampleResult 27 20 ScorersFalsy (ScorersArray (tries 4))]) 2) = Some 2 \<and>
   map_option points
     (map_of (computeStandings 1 [exampleFixture]
                [exampleResult 27 20 ScorersFalsy (ScorersArray (tries 4))]) 2) = Some 2"
  by code_simp

text \<open>
  C3, as amended: in a fixture with a result between two different teams, a side that
  loses by exactly 7 gets no win, one more loss, and 1 bonus point and 1 league point as
  losing bonus; a side that loses by 8 or more gets one more loss and no losing bonus; the
  winner gets one more win and 4 league points for the win either way. Each side gets, on
  top of that, its try bonus (\<open>tbH\<close>, \<open>tbA\<close>: 1 bonus point and 1 league point when it
  is awarded). Both for a home win and for an away win.
\<close>

theorem losing_bonus_per_fixture:
  assumes "rm (fixture_id f) = Some r"
    and "homeTeam f \<noteq> awayTeam f"
    and "map_of st (homeTeam f) = Some H"
    and "map_of st (awayTeam f) = Some A"
    and "hs = parseIntOr0 (homeScore r)"
    and "as = parseIntOr0 (awayScore r)"
    and "tbH = (case decodeScorers (homeScorers r) of None \<Rightarrow> 0
                | Some hl \<Rightarrow> (case decodeScorers (awayScorers r) of None \<Rightarrow> 0
                    | Some al \<Rightarrow> if countTries hl \<ge> 4 then 1 else 0))"
    and "tbA = (case decodeScorers (homeScorers r) of None \<Rightarrow> 0
                | Some hl \<Rightarrow> (case decodeScorers (awayScorers r) of None \<Rightarrow> 0
                    | Some al \<Rightarrow> if countTries al \<ge> 4 then 1 else 0))"
    and "st' = processFixture rm f st"
  shows "(hs = as + 7 \<longrightarrow>
            map_option (\<lambda>t. (won t, lost t, bonusPoints t, points t)) (map_of st' (awayTeam f)) =
              Some (won A, lost A + 1, bonusPoints A + 1 + tbA, points A + 1 + tbA) \<and>
            map_option (\<lambda>t. (won t, lost t, bonusPoints t, points t)) (map_of st' (homeTeam f)) =
              Some (won H + 1, lost H, bonusPoints H + tbH, points H + 4 + tbH))
       \<and> (hs \<ge> as + 8 \<longrightarrow>
            map_option (\<lambda>t. (won t, lost t, bonusPoints t, points t)) (map_of st' (awayTeam f)) =
              Some (won A, lost A + 1, bonusPoints A + tbA, points A + tbA) \<and>
            map_option (\<lambda>t. (won t, lost t, bonusPoints t, points t)) (map_of st' (homeTeam f)) =
              Some (won H + 1, lost H, bonusPoints H + tbH, points H + 4 + tbH))
       \<and> (as = hs + 7 \<longrightarrow>
            map_option (\<lambda>t. (won t, lost t, bonusPoints t, points t)) (map_of st' (homeTeam f)) =
              Some (won H, lost H + 1, bonusPoints H + 1 + tbH, points H + 1 + tbH) \<and>
            map_option (\<lambda>t. (won t, lost t, bonusPoints t, points t)) (map_of st' (awayTeam f)) =
              Some (won A + 1, lost A, bonusPoints A + tbA, points A + 4 + tbA))
       \<and> (as \<ge> hs + 8 \<longrightarrow>
            map_option (\<lambda>t. (won t, lost t, bonusPoints t, points t)) (map_of st' (homeTeam f)) =
              Some (won H, lost H + 1, bonusPoints H + tbH, points H + tbH) \<and>
            map_option (\<lambda>t. (won t, lost t, bonusPoints t, points t)) (map_of st' (awayTeam f)) =
              Some (won A + 1, lost A, bonusPoints A + tbA, points A + 4 + tbA))"
  proof -
  note e = processFixture_effect [where rm = rm and f = f and r = r, OF assms(1-8)]
  from e(1) obtain H' where h: "map_of st' (homeTeam f) = Some H'"
    unfolding assms(9) by (cases "map_of (processFixture rm f st) (homeTeam f)") auto
  from e(2) obtain A' where a: "map_of st' (awayTeam f) = Some A'"
    unfolding assms(9) by (cases "map_of (processFixture rm f st) (awayTeam f)") auto
  from e(1) h e(2) a show ?thesis
    unfolding assms(9) by simp
qed

theorem losing_bonus_per_fixture_witness:
  "map_option (\<lambda>t. (won t, lost t, bonusPoints t, points t))
     (map_of (processFixture
                (resultsMap [exampleResult 27 20 ScorersFalsy (ScorersArray (tries 4))])
                exampleFixture (initStandings [1, 2])) 2) = Some (0, 1, 2, 2) \<and>
   map_option (\<lambda>t. (won t, lost t, bonusPoints t, points t))
     (map_of (processFixture
                (resultsMap [exampleResult 27 20 ScorersFalsy (ScorersArray (tries 4))])
                exampleFixture (initStandings [1, 2])) 1) = Some (1, 0, 0, 4)"
proof -
  let ?r = "exampleResult 27 20 ScorersFalsy (ScorersArray (tries 4))"
  have 1: "resultsMap [?r] (fixture_id exampleFixture) = Some ?r"
    by (simp add: resultsMap_def exampleResult_def exampleFixture_def)
  have 2: "homeTeam exampleFixture \<noteq> awayTeam exampleFixture"
    by (simp add: exampleFixture_def)
  have 3: "map_of (initStandings [1, 2]) (homeTeam exampleFixture) = Some (zeroStanding 1)"
    by code_simp
  have 4: "map_of (initStandings [1, 2]) (awayTeam exampleFixture) = Some (zeroStanding 2)"
    by code_simp
  have 5: "27 = parseIntOr0 (homeScore ?r)"
    by (simp add: exampleResult_def parseIntOr0_def)
  have 6: "20 = parseIntOr0 (awayScore ?r)"
    by (simp add: exampleResult_def parseIntOr0_def)
  have 7: "(0::int) = (case decodeScorers (homeScorers ?r) of None \<Rightarrow> 0
                | Some hl \<Rightarrow> (case decodeScorers (awayScorers ?r) of None \<Rightarrow> 0
                    | Some al \<Rightarrow> if countTries hl \<ge> 4 then 1 else 0))"
    by (simp add: exampleResult_def countTries_def)
  have 8: "(1::int) = (case decodeScorers (homeScorers ?r) of None \<Rightarrow> 0
                | Some hl \<Rightarrow> (case decodeScorers (awayScorers ?r) of None \<Rightarrow> 0
                    | Some al \<Rightarrow> if countTries al \<ge> 4 then 1 else 0))"
    by (simp add: exampleResult_def countTries_def tries_def)
  have 9: "homeTeam exampleFixture = 1" "awayTeam exampleFixture = 2"
    by (simp_all add: exampleFixture_def)
  from losing_bonus_per_fixture [where rm = "resultsMap [?r]" and f = exampleFixture and r = ?r
      and st = "initStandings [1, 2]", OF 1 2 3 4 5 6 7 8 refl]
  show ?thesis by (simp add: 9 zeroStanding_def)
qed

text \<open>
  The spec's two results run through the whole computation, with no scorers recorded:
  team id, won, lost, bonus points and points of the ranked teams.
\<close>

lemma losing_bonus_scenarios:
  "map (\<lambda>t. (teamID t, won t, lost t, bonusPoints t, points t))
     (sortedTeams 1 [exampleFixture] [exampleResult 20 13 ScorersFalsy ScorersFalsy]) =
     [(1, 1, 0, 0, 4), (2, 0, 1, 1, 1)]"
  "map (\<lambda>t. (teamID t, won t, lost t, bonusPoints t, points t))
     (sortedTeams 1 [exampleFixture] [exampleResult 20 12 ScorersFalsy ScorersFalsy]) =
     [(1, 1, 0, 0, 4), (2, 0, 1, 0, 0)]"
  by code_simp+

text \<open>
  C9, counterexample: a 25-20 home win in which the home team's list has five tries and
  the away team's scorer field does not decode; the winner gains 4 points and no bonus
  point.
\<close>

theorem try_bonus_withheld_counterexample:
  "decodeScorers (ScorersArray (tries 5)) = Some (tries 5) \<and> countTries (tries 5) = 5 \<and>
   map_option points
     (map_of (computeStandings 1 [exampleFixture]
                [exampleResult 25 20 (ScorersArray (tries 5)) ScorersMalformed]) 1) = Some 4 \<and>
   map_option bonusPoints
     (map_of (computeStandings 1 [exampleFixture]
                [exampleResult 25 20 (ScorersArray (tries 5)) ScorersMalformed]) 1) = Some 0"
  by code_simp

text \<open>
  C9, as amended: for a fixture with a result between two different teams, the league
  points and bonus points a team gains are the sum of three separate terms, none merged or
  capped: the win / draw award (4, 2 or 0), the losing bonus (1 when it loses by 7 or
  fewer) and the try bonus (1 when both scorer fields decode and its own list has four or
  more tries, 0 otherwise). So, when both fields decode, a winner with four tries gains
  4 + 1 = 5 points and 1 bonus point, and a loser within 7 with four tries gains 2 points
  and 2 bonus points.
\<close>

theorem bonus_sum_per_fixture:
  assumes "rm (fixture_id f) = Some r"
    and "homeTeam f \<noteq> awayTeam f"
    and "map_of st (homeTeam f) = Some H"
    and "map_of st (awayTeam f) = Some A"
    and "hs = parseIntOr0 (homeScore r)"
    and "as = parseIntOr0 (awayScore r)"
    and "tbH = (case decodeScorers (homeScorers r) of None \<Rightarrow> 0
                | Some hl \<Rightarrow> (case decodeScorers (awayScorers r) of None \<Rightarrow> 0
                    | Some al \<Rightarrow> if countTries hl \<ge> 4 then 1 else 0))"
    and "tbA = (case decodeScorers (homeScorers r) of None \<Rightarrow> 0
                | Some hl \<Rightarrow> (case decodeScorers (awayScorers r) of None \<Rightarrow> 0
                    | Some al \<Rightarrow> if countTries al \<ge> 4 then 1 else 0))"
  shows "map_option (\<lambda>t. (points t, bonusPoints t))
             (map_of (processFixture rm f st) (homeTeam f)) =
           Some (points H + (if hs > as then 4 else if as > hs then 0 else 2)
                          + (if as > hs \<and> hs + 7 \<ge> as then 1 else 0) + tbH,
                 bonusPoints H + (if as > hs \<and> hs + 7 \<ge> as then 1 else 0) + tbH)
       \<and> map_option (\<lambda>t. (points t, bonusPoints t))
             (map_of (processFixture rm f st) (awayTeam f)) =
           Some (points A + (if as > hs then 4 else if hs > as then 0 else 2)
                          + (if hs > as \<and> as + 7 \<ge> hs then 1 else 0) + tbA,
                 bonusPoints A + (if hs > as \<and> as + 7 \<ge> hs then 1 else 0) + tbA)"
proof -
  note e = processFixture_effect [where rm = rm and f = f and r = r, OF assms]
  from e(1) obtain H' where h: "map_of (processFixture rm f st) (homeTeam f) = Some H'"
    by (cases "map_of (processFixture rm f st) (homeTeam f)") auto
  from e(2) obtain A' where a: "map_of (processFixture rm f st) (awayTeam f) = Some A'"
    by (cases "map_of (processFixture rm f st) (awayTeam f)") auto
  from e(1) h e(2) a show ?thesis by simp
qed

theorem bonus_sum_per_fixture_witness:
  "map_option (\<lambda>t. (points t, bonusPoints t))
     (map_of (processFixture
                (resultsMap [exampleResult 25 20 (ScorersArray (tries 5)) (ScorersJson (tries 4))])
                exampleFixture (initStandings [1, 2])) 1) = Some (5, 1) \<and>
   map_option (\<lambda>t. (points t, bonusPoints t))
     (map_of (processFixture
                (resultsMap [exampleResult 25 20 (ScorersArray (tries 5)) (ScorersJson (tries 4))])
                exampleFixture (initStandings [1, 2])) 2) = Some (2, 2)"
proof -
  let ?r = "exampleResult 25 20 (ScorersArray (tries 5)) (ScorersJson (tries 4))"
  have 1: "resultsMap [?r] (fixture_id exampleFixture) = Some ?r"
    by (simp add: resultsMap_def exampleResult_def exampleFixture_def)
  have 2: "homeTeam exampleFixture \<noteq> awayTeam exampleFixture"
    by (simp add: exampleFixture_def)
  have 3: "map_of (initStandings [1, 2]) (homeTeam exampleFixture) = Some (zeroStanding 1)"
    by code_simp
  have 4: "map_of (initStandings [1, 2]) (awayTeam exampleFixture) = Some (zeroStanding 2)"
    by code_simp
  have 5: "25 = parseIntOr0 (homeScore ?r)"
    by (simp add: exampleResult_def parseIntOr0_def)
  have 6: "20 = parseIntOr0 (awayScore ?r)"
    by (simp add: exampleResult_def parseIntOr0_def)
  have 7: "(1::int) = (case decodeScorers (homeScorers ?r) of None \<Rightarrow> 0
                | Some hl \<Rightarrow> (case decodeScorers (awayScorers ?r) of None \<Rightarrow> 0
                    | Some al \<Rightarrow> if countTries hl \<ge> 4 then 1 else 0))"
    by (simp add: exampleResult_def countTries_def tries_def)
  have 8: "(1::int) = (case decodeScorers (homeScorers ?r) of None \<Rightarrow> 0
                | Some hl \<Rightarrow> (case decodeScorers (awayScorers ?r) of None \<Rightarrow> 0
                    | Some al \<Rightarrow> if countTries al \<ge> 4 then 1 else 0))"
    by (simp add: exampleResult_def countTries_def tries_def)
  have 9: "homeTeam exampleFixture = 1" "awayTeam exampleFixture = 2"
    by (simp_all add: exampleFixture_def)
  from bonus_sum_per_fixture [where rm = "resultsMap [?r]" and f = exampleFixture and r = ?r
      and st = "initStandings [1, 2]", OF 1 2 3 4 5 6 7 8]
  show ?thesis by (simp add: 9 zeroStanding_def)
qed

subsection \<open>The teams of the computed standings\<close>

lemma keys_modify: "map fst (modify k f st) = map fst st"
  by (induction st) (auto simp add: modify_def)

lemma owner_modify:
  "(\<And>v. teamID (g v) = teamID v) \<Longrightarrow>
   map (teamID \<circ> snd) (modify k g st) = map (teamID \<circ> snd) st"
  by (induction st) (auto simp add: modify_def)

lemma owner_awardMatchPoints:
  "map (teamID \<circ> snd) (awardMatchPoints h a hs as st) = map (teamID \<circ> snd) st"
  by (simp add: awardMatchPoints_def Let_def owner_modify)

lemma keys_awardMatchPoints: "map fst (awardMatchPoints h a hs as st) = map fst st"
  by (simp add: awardMatchPoints_def Let_def keys_modify)

lemma owner_awardTryBonus:
  "map (teamID \<circ> snd) (awardTryBonus h a r st) = map (teamID \<circ> snd) st"
  by (simp add: awardTryBonus_def Let_def owner_modify split: option.splits)

lemma keys_awardTryBonus: "map fst (awardTryBonus h a r st) = map fst st"
  by (simp add: awardTryBonus_def Let_def keys_modify split: option.splits)

lemma owner_processFixture:
  "map (teamID \<circ> snd) (processFixture rm f st) = map (teamID \<circ> snd) st"
  by (simp add: processFixture_def Let_def owner_modify owner_awardMatchPoints
      owner_awardTryBonus split: option.splits)

lemma keys_processFixture: "map fst (processFixture rm f st) = map fst st"
  by (simp add: processFixture_def Let_def keys_modify keys_awardMatchPoints
      keys_awardTryBonus split: option.splits)

lemma owner_fold_processFixture:
  "map (teamID \<circ> snd) (fold (processFixture rm) fs st) = map (teamID \<circ> snd) st"
  by (induction fs arbitrary: st) (simp_all add: owner_processFixture)

lemma keys_fold_processFixture: "map fst (fold (processFixture rm) fs st) = map fst st"
  by (induction fs arbitrary: st) (simp_all add: keys_processFixture)

lemma set_keys_setProp: "set (map fst (setProp k v st)) = insert k (set (map fst st))"
  by (induction st) auto

lemma sorted_keys_setProp:
  "sorted_wrt (<) (map fst st) \<Longrightarrow> sorted_wrt (<) (map fst (setProp k v st))"
proof (induction st)
  case Nil
  then show ?case by simp
next
  case (Cons e es)
  then have "\<forall>x\<in>set (map fst (setProp k v es)). fst e < x" if "fst e < k"
    using that by (auto simp only: set_keys_setProp sorted_wrt.simps list.map set_simps)
  with Cons show ?case by auto
qed

lemma owner_setProp:
  "\<forall>e\<in>set st. teamID (snd e) = fst e \<Longrightarrow> teamID v = k \<Longrightarrow>
   \<forall>e\<in>set (setProp k v st). teamID (snd e) = fst e"
  by (induction st) auto

lemma initStandings_invariants:
  "sorted_wrt (<) (map fst (fold (\<lambda>t obj. setProp t (zeroStanding t) obj) ids st)) \<and>
   set (map fst (fold (\<lambda>t obj. setProp t (zeroStanding t) obj) ids st)) =
     set ids \<union> set (map fst st) \<and>
   (\<forall>e\<in>set (fold (\<lambda>t obj. setProp t (zeroStanding t) obj) ids st). teamID (snd e) = fst e)"
  if "sorted_wrt (<) (map fst st)" and "\<forall>e\<in>set st. teamID (snd e) = fst e"
  using that
proof (induction ids arbitrary: st)
  case Nil
  then show ?case by simp
next
  case (Cons t ids)
  have 1: "sorted_wrt (<) (map fst (setProp t (zeroStanding t) st))"
    using Cons.prems(1) by (rule sorted_keys_setProp)
  have 2: "\<forall>e\<in>set (setProp t (zeroStanding t) st). teamID (snd e) = fst e"
    using Cons.prems(2) by (rule owner_setProp) (simp add: zeroStanding_def)
  from Cons.IH [OF 1 2] show ?case
    by (simp only: fold_simps set_keys_setProp) auto
qed

lemma set_Set_add: "set (Set_add x s) = insert x (set s)"
  by (auto simp add: Set_add_def)

lemma set_teamIDs_fold:
  "set (fold (\<lambda>f s. Set_add (awayTeam f) (Set_add (homeTeam f) s)) fs s0) =
     set s0 \<union> homeTeam ` set fs \<union> awayTeam ` set fs"
  by (induction fs arbitrary: s0) (auto simp add: set_Set_add)

lemma set_teamIDs: "set (teamIDs fs) = homeTeam ` set fs \<union> awayTeam ` set fs"
  by (simp add: teamIDs_def set_teamIDs_fold)

lemma computeStandings_owner:
  "map teamID (Object_values (computeStandings L fx rs)) = map fst (computeStandings L fx rs)"
proof -
  let ?fs = "leagueFixtures L fx"
  let ?init = "initStandings (teamIDs ?fs)"
  have "\<forall>e\<in>set ?init. teamID (snd e) = fst e"
    using initStandings_invariants [of "[]" "teamIDs ?fs"] by (simp add: initStandings_def)
  then have "map (teamID \<circ> snd) ?init = map fst ?init" by simp
  then show ?thesis
    by (simp add: computeStandings_def Let_def Object_values_def
        owner_fold_processFixture keys_fold_processFixture)
qed

lemma computeStandings_keys:
  "sorted_wrt (<) (map fst (computeStandings L fx rs)) \<and>
   set (map fst (computeStandings L fx rs)) =
     homeTeam ` set (leagueFixtures L fx) \<union> awayTeam ` set (leagueFixtures L fx)"
  using initStandings_invariants [of "[]" "teamIDs (leagueFixtures L fx)"]
  by (simp add: computeStandings_def Let_def keys_fold_processFixture initStandings_def set_teamIDs)

text \<open>
  Both teams of a fixture of the loop are keys of the object at every iteration, so the
  references \<^verbatim>\<open>standings[fixture.homeTeam]\<close> and \<^verbatim>\<open>standings[fixture.awayTeam]\<close> are
  never undefined.
\<close>

lemma fixture_teams_are_keys:
  assumes "f \<in> set (leagueFixtures L fx)"
  shows "homeTeam f \<in> set (map fst (fold (processFixture rm) gs
                                       (initStandings (teamIDs (leagueFixtures L fx))))) \<and>
         awayTeam f \<in> set (map fst (fold (processFixture rm) gs
                                       (initStandings (teamIDs (leagueFixtures L fx)))))"
  using assms initStandings_invariants [of "[]" "teamIDs (leagueFixtures L fx)"]
  by (simp add: keys_fold_processFixture initStandings_def set_teamIDs)

lemma teamID_assignPositions: "map teamID (assignPositions k xs) = map teamID xs"
  by (induction k xs rule: assignPositions.induct) auto

lemma distinct_map_sortInsert:
  "distinct (map f (sortInsert cmp x ys)) \<longleftrightarrow> f x \<notin> f ` set ys \<and> distinct (map f ys)"
  by (induction ys) (auto simp add: set_sortInsert)

lemma distinct_map_Array_sort:
  "distinct (map f (Array_sort cmp xs)) \<longleftrightarrow> distinct (map f xs)"
proof (induction xs)
  case Nil
  then show ?case by (simp add: Array_sort_def)
next
  case (Cons x xs)
  then show ?case
    by (simp add: Array_sort_Cons distinct_map_sortInsert set_Array_sort)
qed

lemma sortedTeams_distinct: "distinct (map teamID (sortedTeams L fx rs))"
proof -
  have "distinct (map fst (computeStandings L fx rs))"
    using computeStandings_keys [of L fx rs] by (simp add: strict_sorted_iff)
  then show ?thesis
    by (simp add: sortedTeams_def teamID_assignPositions distinct_map_Array_sort
        computeStandings_owner)
qed

lemma sortedTeams_teams:
  "set (map teamID (sortedTeams L fx rs)) =
     homeTeam ` set (leagueFixtures L fx) \<union> awayTeam ` set (leagueFixtures L fx)"
proof -
  have "set (map teamID (sortedTeams L fx rs)) =
        set (map teamID (Object_values (computeStandings L fx rs)))"
    by (simp only: sortedTeams_def teamID_assignPositions set_map set_Array_sort)
  then show ?thesis
    using computeStandings_keys [of L fx rs] by (simp only: computeStandings_owner)
qed

subsection \<open>Requests and tables across one iteration\<close>

lemma find_SomeD: "find P xs = Some e \<Longrightarrow> e \<in> set xs \<and> P e"
  by (induction xs) (auto split: if_splits)

lemma find_NoneD: "find P xs = None \<Longrightarrow> \<forall>x\<in>set xs. \<not> P x"
  by (induction xs) (auto split: if_splits)

lemma crudRequest_Served: "env n = Served \<Longrightarrow> crudRequest env n = Served"
  by (simp add: crudRequest_def)

lemma persistTeam_read_throw:
  "crudRequest env (requests w) = Thrown m \<Longrightarrow>
   persistTeam env L team w = (Some m, w\<lparr>requests := requests w + 1\<rparr>)"
  by (simp add: persistTeam_def crudRead_def)

lemma persistTeam_write_throw:
  assumes "\<forall>m'. crudRequest env (requests w) \<noteq> Thrown m'" and "crudRequest env (requests w + 1) = Thrown m"
  shows "fst (persistTeam env L team w) = Some m \<and>
         requests (snd (persistTeam env L team w)) = requests w + 2 \<and>
         tblstandings (snd (persistTeam env L team w)) = tblstandings w"
  using assms
  by (cases "crudRequest env (requests w)")
     (simp_all add: persistTeam_def crudRead_def crudCreate_def crudUpdate_def Let_def
        split: option.splits)

lemma persistTeam_no_throw:
  assumes "\<forall>m'. crudRequest env (requests w) \<noteq> Thrown m'" and "\<forall>m'. crudRequest env (requests w + 1) \<noteq> Thrown m'"
  shows "fst (persistTeam env L team w) = None \<and>
         requests (snd (persistTeam env L team w)) = requests w + 2"
  using assms
  by (cases "crudRequest env (requests w)"; cases "crudRequest env (requests w + 1)")
     (simp_all add: persistTeam_def crudRead_def crudCreate_def crudUpdate_def Let_def
        split: option.splits)

lemma persistTeam_served:
  assumes "crudRequest env (requests w) = Served" and "crudRequest env (requests w + 1) = Served"
  shows "persistTeam env L team w =
           (None, w\<lparr>tblstandings := upsert L team (tblstandings w),
                    requests := requests w + 2\<rparr>)"
  using assms
  by (simp add: persistTeam_def crudRead_def crudCreate_def crudUpdate_def upsert_def Let_def
        split: option.splits)

lemma persistTeams_reliable:
  assumes "\<forall>n. env n = Served"
  shows "persistTeams env L ts w =
           (None, w\<lparr>tblstandings := fold (upsert L) ts (tblstandings w),
                    requests := requests w + 2 * length ts\<rparr>)"
  using assms
proof (induction ts arbitrary: w)
  case Nil
  then show ?case by simp
next
  case (Cons t ts)
  then show ?case by (simp add: persistTeam_served crudRequest_Served)
qed

lemma persistTeams_no_throw:
  assumes "\<forall>n m. requests w \<le> n \<and> n < requests w + 2 * length ts \<longrightarrow> crudRequest env n \<noteq> Thrown m"
  shows "fst (persistTeams env L ts w) = None \<and>
         requests (snd (persistTeams env L ts w)) = requests w + 2 * length ts"
  using assms
proof (induction ts arbitrary: w)
  case Nil
  then show ?case by simp
next
  case (Cons t ts)
  have a: "\<forall>m'. crudRequest env (requests w) \<noteq> Thrown m'" using Cons.prems by simp
  have b: "\<forall>m'. crudRequest env (requests w + 1) \<noteq> Thrown m'" using Cons.prems by simp
  obtain w2 where p: "persistTeam env L t w = (None, w2)" and r: "requests w2 = requests w + 2"
    using persistTeam_no_throw [OF a b, of L t] by (cases "persistTeam env L t w") auto
  have "\<forall>n m. requests w2 \<le> n \<and> n < requests w2 + 2 * length ts \<longrightarrow> crudRequest env n \<noteq> Thrown m"
    using Cons.prems r by simp
  from Cons.IH [OF this] show ?case by (simp add: p r)
qed

lemma persistTeams_first_throw:
  assumes "requests w \<le> j" and "j < requests w + 2 * length ts" and "crudRequest env j = Thrown m"
    and "\<forall>i m'. requests w \<le> i \<and> i < j \<longrightarrow> crudRequest env i \<noteq> Thrown m'"
  shows "fst (persistTeams env L ts w) = Some m \<and>
         requests (snd (persistTeams env L ts w)) = j + 1"
  using assms
proof (induction ts arbitrary: w)
  case Nil
  then show ?case by simp
next
  case (Cons t ts)
  consider (atRead) "j = requests w" | (atWrite) "j = requests w + 1" | (later) "requests w + 2 \<le> j"
    using Cons.prems(1) by linarith
  then show ?case
  proof cases
    case atRead
    with Cons.prems(3) show ?thesis by (simp add: persistTeam_read_throw)
  next
    case atWrite
    have a: "\<forall>m'. crudRequest env (requests w) \<noteq> Thrown m'" using Cons.prems(4) atWrite by simp
    have b: "crudRequest env (requests w + 1) = Thrown m" using Cons.prems(3) atWrite by simp
    from persistTeam_write_throw [OF a b, of L t] atWrite show ?thesis
      by (cases "persistTeam env L t w") auto
  next
    case later
    have a: "\<forall>m'. crudRequest env (requests w) \<noteq> Thrown m'" using Cons.prems(4) later by simp
    have b: "\<forall>m'. crudRequest env (requests w + 1) \<noteq> Thrown m'" using Cons.prems(4) later by simp
    obtain w2 where p: "persistTeam env L t w = (None, w2)" and r: "requests w2 = requests w + 2"
      using persistTeam_no_throw [OF a b, of L t] by (cases "persistTeam env L t w") auto
    have 1: "requests w2 \<le> j" using later r by simp
    have 2: "j < requests w2 + 2 * length ts" using Cons.prems(2) r by simp
    have 3: "\<forall>i m'. requests w2 \<le> i \<and> i < j \<longrightarrow> crudRequest env i \<noteq> Thrown m'"
      using Cons.prems(4) r by simp
    from Cons.IH [OF 1 2 Cons.prems(3) 3] show ?thesis by (simp add: p)
  qed
qed

subsection \<open>Writes to the standings table\<close>

lemma storeRow_fields:
  "standing_id (storeRow d i) = i"
  "leagueID (storeRow d i) = leagueID d"
  "teamID (storeRow d i) = teamID d"
  by (simp_all add: storeRow_def)

lemma mkStandingData_fields:
  "leagueID (mkStandingData L team) = L"
  "teamID (mkStandingData L team) = teamID team"
  by (simp_all add: mkStandingData_def)

lemma fold_max_start: "b \<le> fold max ys (b::nat)"
proof (induction ys arbitrary: b)
  case Nil
  then show ?case by simp
next
  case (Cons y ys)
  have "b \<le> max y b" by simp
  also have "\<dots> \<le> fold max ys (max y b)" by (rule Cons.IH)
  finally show ?case by simp
qed

lemma fold_max_ge: "x \<in> set xs \<Longrightarrow> x \<le> fold max xs (a::nat)"
proof (induction xs arbitrary: a)
  case Nil
  then show ?case by simp
next
  case (Cons y ys)
  show ?case
  proof (cases "x = y")
    case True
    have "y \<le> max y a" by simp
    also have "\<dots> \<le> fold max ys (max y a)" by (rule fold_max_start)
    finally show ?thesis using True by simp
  next
    case False
    with Cons show ?thesis by simp
  qed
qed

lemma freshId_fresh: "s \<in> set rows \<Longrightarrow> standing_id s < freshId rows"
  using fold_max_ge [of "standing_id s" "map standing_id rows" 0]
  by (simp add: freshId_def less_Suc_eq_le)

lemma distinct_ids_append_fresh:
  "distinct (map standing_id rows) \<Longrightarrow>
   distinct (map standing_id (rows @ [storeRow d (freshId rows)]))"
proof -
  assume d: "distinct (map standing_id rows)"
  have "freshId rows \<notin> standing_id ` set rows"
  proof
    assume "freshId rows \<in> standing_id ` set rows"
    then obtain s where "s \<in> set rows" and "freshId rows = standing_id s" by auto
    with freshId_fresh [of s rows] show False by simp
  qed
  with d show ?thesis by (simp add: storeRow_fields)
qed

lemma ids_update:
  "map standing_id (map (\<lambda>s. if standing_id s = i then storeRow d i else s) rows) =
   map standing_id rows"
  by (induction rows) (simp_all add: storeRow_fields)

lemma same_id_same_row:
  "distinct (map standing_id rows) \<Longrightarrow> s \<in> set rows \<Longrightarrow> e \<in> set rows \<Longrightarrow>
   standing_id s = standing_id e \<Longrightarrow> s = e"
proof -
  assume "distinct (map standing_id rows)"
  then have "inj_on standing_id (set rows)" by (simp add: distinct_map)
  moreover assume "s \<in> set rows" "e \<in> set rows" "standing_id s = standing_id e"
  ultimately show "s = e" by (auto dest: inj_onD)
qed

lemma filter_map_fixed:
  "\<forall>x\<in>set xs. g x = x \<or> (\<not> Q x \<and> \<not> Q (g x)) \<Longrightarrow> filter Q (map g xs) = filter Q xs"
  by (induction xs) auto

lemma find_map_fixed:
  "\<forall>x\<in>set xs. g x = x \<or> (\<not> P x \<and> \<not> P (g x)) \<Longrightarrow> find P (map g xs) = find P xs"
  by (induction xs) auto

lemma find_map_hit:
  "find P xs = Some e \<Longrightarrow> \<forall>x\<in>set xs. x \<noteq> e \<longrightarrow> g x = x \<Longrightarrow> P (g e) \<Longrightarrow>
   find P (map g xs) = Some (g e)"
  by (induction xs) (auto split: if_splits)

lemma find_snoc:
  "find P (xs @ [y]) = (case find P xs of None \<Rightarrow> (if P y then Some y else None) | Some x \<Rightarrow> Some x)"
  by (induction xs) auto

text \<open>The three things an iteration can do to the table.\<close>

lemma persistTeam_cases:
  fixes w L team env
  defines "rows \<equiv> tblstandings w"
    and "d \<equiv> mkStandingData L team"
    and "w' \<equiv> snd (persistTeam env L team w)"
  shows "tblfixtures w' = tblfixtures w \<and> tblresults w' = tblresults w \<and>
         (tblstandings w' = rows
          \<or> tblstandings w' = rows @ [storeRow d (freshId rows)]
          \<or> (\<exists>e\<in>set rows. leagueID e = L \<and> teamID e = teamID team \<and>
                tblstandings w' =
                  map (\<lambda>s. if standing_id s = standing_id e
                            then storeRow d (standing_id e) else s) rows))"
proof (cases "crudRequest env (requests w)")
  case Served
  show ?thesis
  proof (cases "find (\<lambda>s. leagueID s = L \<and> teamID s = teamID team) rows")
    case None
    with Served show ?thesis
      unfolding rows_def d_def w'_def
      by (cases "crudRequest env (requests w + 1)")
         (simp_all add: persistTeam_def crudRead_def crudCreate_def Let_def)
  next
    case (Some e)
    then have e: "e \<in> set rows \<and> leagueID e = L \<and> teamID e = teamID team"
      by (auto dest: find_SomeD)
    from Served Some have
      "tblfixtures w' = tblfixtures w \<and> tblresults w' = tblresults w \<and>
       (tblstandings w' = rows \<or>
        tblstandings w' = map (\<lambda>s. if standing_id s = standing_id e
                            then storeRow d (standing_id e) else s) rows)"
      unfolding rows_def d_def w'_def
      by (cases "crudRequest env (requests w + 1)")
         (simp_all add: persistTeam_def crudRead_def crudUpdate_def Let_def)
    with e show ?thesis by blast
  qed
next
  case (Refused c)
  then show ?thesis
    unfolding rows_def d_def w'_def
    by (cases "crudRequest env (requests w + 1)")
       (simp_all add: persistTeam_def crudRead_def crudCreate_def Let_def)
next
  case (Thrown m)
  then show ?thesis
    unfolding rows_def d_def w'_def by (simp add: persistTeam_read_throw)
qed

lemma persistTeam_frame:
  assumes "teamID team \<in> T" and "distinct (map standing_id (tblstandings w))"
  shows "tblfixtures (snd (persistTeam env L team w)) = tblfixtures w \<and>
         tblresults (snd (persistTeam env L team w)) = tblresults w \<and>
         distinct (map standing_id (tblstandings (snd (persistTeam env L team w)))) \<and>
         filter (\<lambda>s. \<not> (leagueID s = L \<and> teamID s \<in> T))
             (tblstandings (snd (persistTeam env L team w))) =
           filter (\<lambda>s. \<not> (leagueID s = L \<and> teamID s \<in> T)) (tblstandings w)"
proof -
  let ?rows = "tblstandings w"
  let ?d = "mkStandingData L team"
  let ?w' = "snd (persistTeam env L team w)"
  let ?out = "\<lambda>s::standing. \<not> (leagueID s = L \<and> teamID s \<in> T)"
  note c = persistTeam_cases [of env L team w]
  from c consider
      (same) "tblstandings ?w' = ?rows"
    | (created) "tblstandings ?w' = ?rows @ [storeRow ?d (freshId ?rows)]"
    | (updated) e where "e \<in> set ?rows" "leagueID e = L" "teamID e = teamID team"
        "tblstandings ?w' =
           map (\<lambda>s. if standing_id s = standing_id e then storeRow ?d (standing_id e) else s) ?rows"
    by blast
  then have "distinct (map standing_id (tblstandings ?w')) \<and>
             filter ?out (tblstandings ?w') = filter ?out ?rows"
  proof cases
    case same
    with assms show ?thesis by simp
  next
    case created
    with assms show ?thesis
      by (simp add: distinct_ids_append_fresh storeRow_fields mkStandingData_fields
          del: distinct_append map_append)
  next
    case (updated e)
    let ?g = "\<lambda>s. if standing_id s = standing_id e then storeRow ?d (standing_id e) else s"
    have "\<forall>x\<in>set ?rows. ?g x = x \<or> (\<not> ?out x \<and> \<not> ?out (?g x))"
    proof
      fix x assume x: "x \<in> set ?rows"
      show "?g x = x \<or> (\<not> ?out x \<and> \<not> ?out (?g x))"
      proof (cases "standing_id x = standing_id e")
        case True
        with assms(2) x updated(1) have "x = e" by (rule_tac same_id_same_row)
        with updated assms(1) show ?thesis
          by (simp add: storeRow_fields mkStandingData_fields)
      next
        case False
        then show ?thesis by simp
      qed
    qed
    then have "filter ?out (map ?g ?rows) = filter ?out ?rows" by (rule filter_map_fixed)
    with updated(4) assms(2) show ?thesis by (simp only: ids_update simp_thms)
  qed
  with c show ?thesis by simp
qed

lemma persistTeams_frame:
  assumes "\<forall>t\<in>set ts. teamID t \<in> T" and "distinct (map standing_id (tblstandings w))"
  shows "tblfixtures (snd (persistTeams env L ts w)) = tblfixtures w \<and>
         tblresults (snd (persistTeams env L ts w)) = tblresults w \<and>
         distinct (map standing_id (tblstandings (snd (persistTeams env L ts w)))) \<and>
         filter (\<lambda>s. \<not> (leagueID s = L \<and> teamID s \<in> T))
             (tblstandings (snd (persistTeams env L ts w))) =
           filter (\<lambda>s. \<not> (leagueID s = L \<and> teamID s \<in> T)) (tblstandings w)"
  using assms
proof (induction ts arbitrary: w)
  case Nil
  then show ?case by simp
next
  case (Cons t ts)
  obtain r w2 where p: "persistTeam env L t w = (r, w2)" by (cases "persistTeam env L t w")
  have t: "teamID t \<in> T" using Cons.prems(1) by simp
  from persistTeam_frame [OF t Cons.prems(2), of env L] p
  have f: "tblfixtures w2 = tblfixtures w \<and> tblresults w2 = tblresults w \<and>
           distinct (map standing_id (tblstandings w2)) \<and>
           filter (\<lambda>s. \<not> (leagueID s = L \<and> teamID s \<in> T)) (tblstandings w2) =
             filter (\<lambda>s. \<not> (leagueID s = L \<and> teamID s \<in> T)) (tblstandings w)"
    by simp
  show ?case
  proof (cases r)
    case None
    have "\<forall>t\<in>set ts. teamID t \<in> T" using Cons.prems(1) by simp
    from Cons.IH [OF this, of w2] f show ?thesis by (simp add: p None)
  next
    case (Some m)
    with f show ?thesis by (simp add: p)
  qed
qed

subsection \<open>Recalculation on a responsive store\<close>

lemma upsert_distinct_ids:
  "distinct (map standing_id rows) \<Longrightarrow> distinct (map standing_id (upsert L t rows))"
  by (simp add: upsert_def distinct_ids_append_fresh ids_update
      del: map_append distinct_append map_map split: option.splits)

lemma upsert_upToDate_fixed:
  assumes "upToDate L t rows" and "distinct (map standing_id rows)"
  shows "upsert L t rows = rows"
proof -
  let ?d = "mkStandingData L t"
  from assms(1) obtain e
    where f: "find (\<lambda>s. leagueID s = L \<and> teamID s = teamID t) rows = Some e"
      and e: "e = storeRow ?d (standing_id e)"
    by (auto simp add: upToDate_def split: option.splits)
  from f have mem: "e \<in> set rows" by (auto dest: find_SomeD)
  have "map (\<lambda>s. if standing_id s = standing_id e then storeRow ?d (standing_id e) else s) rows
          = rows"
  proof (rule map_idI)
    fix x assume x: "x \<in> set rows"
    show "(if standing_id x = standing_id e then storeRow ?d (standing_id e) else x) = x"
    proof (cases "standing_id x = standing_id e")
      case True
      with assms(2) x mem have "x = e" by (rule_tac same_id_same_row)
      with e show ?thesis by simp
    next
      case False
      then show ?thesis by simp
    qed
  qed
  with f show ?thesis by (simp add: upsert_def)
qed

lemma upsert_makes_upToDate:
  assumes "distinct (map standing_id rows)"
  shows "upToDate L t (upsert L t rows)"
proof (cases "find (\<lambda>s. leagueID s = L \<and> teamID s = teamID t) rows")
  case None
  then show ?thesis
    by (simp add: upsert_def upToDate_def find_snoc storeRow_fields mkStandingData_fields)
next
  case (Some e)
  let ?d = "mkStandingData L t"
  let ?g = "\<lambda>s. if standing_id s = standing_id e then storeRow ?d (standing_id e) else s"
  from Some have mem: "e \<in> set rows" by (auto dest: find_SomeD)
  have fixed: "\<forall>x\<in>set rows. x \<noteq> e \<longrightarrow> ?g x = x"
    using same_id_same_row [OF assms _ mem] by auto
  have hit: "leagueID (?g e) = L \<and> teamID (?g e) = teamID t"
    by (simp add: storeRow_fields mkStandingData_fields)
  from hit
  have "find (\<lambda>s. leagueID s = L \<and> teamID s = teamID t) (map ?g rows) = Some (?g e)"
    by (rule find_map_hit [where P = "\<lambda>s. leagueID s = L \<and> teamID s = teamID t" and g = ?g,
          OF Some fixed])
  with Some show ?thesis
    by (simp add: upsert_def upToDate_def storeRow_fields)
qed

lemma upsert_keeps_upToDate:
  assumes "teamID t' \<noteq> teamID t" and "distinct (map standing_id rows)"
    and "upToDate L t' rows"
  shows "upToDate L t' (upsert L t rows)"
proof (cases "find (\<lambda>s. leagueID s = L \<and> teamID s = teamID t) rows")
  case None
  with assms(3) show ?thesis
    by (auto simp add: upsert_def upToDate_def find_snoc split: option.splits)
next
  case (Some e)
  let ?d = "mkStandingData L t"
  let ?g = "\<lambda>s. if standing_id s = standing_id e then storeRow ?d (standing_id e) else s"
  let ?P' = "\<lambda>s::standing. leagueID s = L \<and> teamID s = teamID t'"
  from Some have mem: "e \<in> set rows" and pe: "teamID e = teamID t"
    by (auto dest: find_SomeD)
  have "\<forall>x\<in>set rows. ?g x = x \<or> (\<not> ?P' x \<and> \<not> ?P' (?g x))"
  proof
    fix x assume x: "x \<in> set rows"
    show "?g x = x \<or> (\<not> ?P' x \<and> \<not> ?P' (?g x))"
    proof (cases "standing_id x = standing_id e")
      case True
      with assms(2) x mem have "x = e" by (rule_tac same_id_same_row)
      with pe assms(1) show ?thesis
        by (simp add: storeRow_fields mkStandingData_fields)
    next
      case False
      then show ?thesis by simp
    qed
  qed
  then have "find ?P' (map ?g rows) = find ?P' rows" by (rule find_map_fixed)
  with Some assms(3) show ?thesis by (simp add: upsert_def upToDate_def)
qed

lemma fold_upsert_upToDate:
  assumes "distinct (map teamID ts)" and "distinct (map standing_id rows)"
  shows "distinct (map standing_id (fold (upsert L) ts rows)) \<and>
         (\<forall>t\<in>set ts. upToDate L t (fold (upsert L) ts rows))"
  using assms(1)
proof (induction ts rule: rev_induct)
  case Nil
  with assms(2) show ?case by simp
next
  case (snoc t ts)
  let ?rows = "fold (upsert L) ts rows"
  from snoc.prems have dts: "distinct (map teamID ts)"
    and notin: "teamID t \<notin> teamID ` set ts" by simp_all
  have new: "\<forall>u\<in>set ts. teamID u \<noteq> teamID t"
  proof
    fix u assume "u \<in> set ts"
    then have "teamID u \<in> teamID ` set ts" by (rule imageI)
    with notin show "teamID u \<noteq> teamID t" by auto
  qed
  from snoc.IH [OF dts] have d: "distinct (map standing_id ?rows)"
    and u: "\<forall>u\<in>set ts. upToDate L u ?rows" by simp_all
  have 1: "distinct (map standing_id (upsert L t ?rows))"
    using d by (rule upsert_distinct_ids)
  have 2: "upToDate L t (upsert L t ?rows)"
    using d by (rule upsert_makes_upToDate)
  have 3: "upToDate L u (upsert L t ?rows)" if "u \<in> set ts" for u
    using new u that d by (intro upsert_keeps_upToDate) auto
  from 1 2 3 show ?case by auto
qed

lemma fold_upsert_fixed:
  assumes "\<forall>t\<in>set ts. upToDate L t rows" and "distinct (map standing_id rows)"
  shows "fold (upsert L) ts rows = rows"
  using assms by (induction ts) (simp_all add: upsert_upToDate_fixed)

lemma calculate_reliable:
  assumes "\<forall>n. env n = Served"
  shows "calculateLeagueStandings S env L S w =
           (\<lparr>success = True, message = ''Standings updated successfully''\<rparr>,
            w\<lparr>tblstandings :=
                 fold (upsert L) (sortedTeams L (tblfixtures w) (tblresults w)) (tblstandings w),
              requests :=
                 requests w + 2 + 2 * length (sortedTeams L (tblfixtures w) (tblresults w))\<rparr>)"
  using assms
  by (simp add: calculateLeagueStandings_def crudRead_def persistTeams_reliable
      crudRequest_Served)

subsection \<open>The rows a run can touch\<close>

lemma persistTeams_frame_run:
  assumes "distinct (map standing_id (tblstandings w))"
    and "set (map teamID ts) \<subseteq> T"
    and "persistTeams env L ts (w\<lparr>requests := k\<rparr>) = (r, w3)"
  shows "filter (\<lambda>s. \<not> (leagueID s = L \<and> teamID s \<in> T)) (tblstandings w3) =
           filter (\<lambda>s. \<not> (leagueID s = L \<and> teamID s \<in> T)) (tblstandings w) \<and>
         tblfixtures w3 = tblfixtures w \<and> tblresults w3 = tblresults w"
proof -
  have 1: "\<forall>t\<in>set ts. teamID t \<in> T" using assms(2) by auto
  have 2: "distinct (map standing_id (tblstandings (w\<lparr>requests := k\<rparr>)))"
    using assms(1) by simp
  from persistTeams_frame [OF 1 2, of env L] assms(3) show ?thesis by simp
qed

lemma leagueFixtures_teams:
  "homeTeam ` set (leagueFixtures L fx) \<union> awayTeam ` set (leagueFixtures L fx) =
   {t. \<exists>f\<in>set fx. fixture.leagueID f = L \<and> status f = 2 \<and> (homeTeam f = t \<or> awayTeam f = t)}"
  by (auto simp add: leagueFixtures_def)

text \<open>
  C10: let \<open>T\<close> be the teams that are home or away in a fixture of league \<open>L\<close> with
  status 2. Whatever the DataStore answers, the rows of \<^verbatim>\<open>tblstandings\<close> that are not
  rows of league \<open>L\<close> and a team of \<open>T\<close> are the same list before and after the run (none
  is created, changed or removed), and the fixtures and results tables are unchanged. The
  ids of the standings table are assumed distinct (its primary key).
\<close>

theorem writes_only_for_teams_of_completed_fixtures:
  assumes "distinct (map standing_id (tblstandings w))"
    and "T = {t. \<exists>f\<in>set (tblfixtures w).
                 fixture.leagueID f = L \<and> status f = 2 \<and> (homeTeam f = t \<or> awayTeam f = t)}"
    and "w' = snd (calculateLeagueStandings S env L leagueSeason w)"
  shows "filter (\<lambda>s. \<not> (leagueID s = L \<and> teamID s \<in> T)) (tblstandings w') =
           filter (\<lambda>s. \<not> (leagueID s = L \<and> teamID s \<in> T)) (tblstandings w) \<and>
         tblfixtures w' = tblfixtures w \<and> tblresults w' = tblresults w"
proof -
  have full: "set (map teamID (sortedTeams L (tblfixtures w) ar)) \<subseteq> T" for ar
    unfolding sortedTeams_teams leagueFixtures_teams assms(2) by simp
  have none: "set (map teamID (sortedTeams L [] ar)) \<subseteq> T" for ar
    unfolding sortedTeams_teams by (simp add: leagueFixtures_def)
  note a = persistTeams_frame_run [OF assms(1) full]
  note b = persistTeams_frame_run [OF assms(1) none]
  show ?thesis
    unfolding assms(3) calculateLeagueStandings_def crudRead_def
    by (auto split: outcome.splits prod.splits option.splits dest: a b)
qed

theorem writes_only_for_teams_of_completed_fixtures_witness:
  "distinct (map standing_id (tblstandings staleWorld)) \<and>
   filter (\<lambda>s. \<not> (leagueID s = 1 \<and> teamID s \<in> {t. \<exists>f\<in>set (tblfixtures staleWorld).
                 fixture.leagueID f = 1 \<and> status f = 2 \<and> (homeTeam f = t \<or> awayTeam f = t)}))
     (tblstandings (snd (calculateLeagueStandings ''2025-26'' reliable 1 ''2025-26'' staleWorld))) =
   [exampleRow 2 2 1 9, exampleRow 3 1 9 6]"
proof -
  have d: "distinct (map standing_id (tblstandings staleWorld))" by code_simp
  have v: "filter (\<lambda>s. \<not> (leagueID s = 1 \<and> teamID s \<in> {t. \<exists>f\<in>set (tblfixtures staleWorld).
                 fixture.leagueID f = 1 \<and> status f = 2 \<and> (homeTeam f = t \<or> awayTeam f = t)}))
             (tblstandings staleWorld) = [exampleRow 2 2 1 9, exampleRow 3 1 9 6]"
    by (simp add: staleWorld_def exampleWorld_def exampleFixture_def exampleRow_def)
  from writes_only_for_teams_of_completed_fixtures [OF d refl refl,
      where L = 1 and S = "''2025-26''" and env = reliable and leagueSeason = "''2025-26''"]
    d v show ?thesis by simp
qed

subsection \<open>Uniqueness of the row of a team\<close>

text \<open>
  C4: the run on \<open>staleWorld\<close> in which the re-read of \<^verbatim>\<open>tblstandings\<close> for the first
  ranked team (request 2) is refused with status 500. The table holds one row per
  (leagueID, teamID) before the run; the refused read is taken for an empty table, a row
  is created, and league 1 / team 1 has two rows afterwards.
\<close>

theorem duplicate_row_after_refused_reread:
  "distinct (map standingKey (tblstandings staleWorld)) \<and>
   \<not> distinct (map standingKey (tblstandings (snd
        (calculateLeagueStandings ''2025-26'' (refusingAt 2 500) 1 ''2025-26'' staleWorld)))) \<and>
   map standingKey (tblstandings (snd
        (calculateLeagueStandings ''2025-26'' (refusingAt 2 500) 1 ''2025-26'' staleWorld))) =
     [(1, 1), (2, 1), (1, 9), (1, 1), (1, 2)]"
  by code_simp

subsection \<open>Failures while persisting\<close>

lemma calculate_after_reads:
  assumes "crudRequest env (requests w) = Served" and "crudRequest env (requests w + 1) = Served"
  shows "calculateLeagueStandings S env L S w =
           (case persistTeams env L (sortedTeams L (tblfixtures w) (tblresults w))
                   (w\<lparr>requests := requests w + 2\<rparr>) of
              (Some m, w3) \<Rightarrow> (\<lparr>success = False, message = m\<rparr>, w3)
            | (None, w3) \<Rightarrow>
                (\<lparr>success = True, message = ''Standings updated successfully''\<rparr>, w3))"
  using assms by (simp add: calculateLeagueStandings_def crudRead_def)

text \<open>
  C7, counterexample: the create for the first ranked team raises; the operation returns
  \<open>success = False\<close> with that message and the second team is never written.
\<close>

theorem thrown_write_aborts_counterexample:
  "calculateLeagueStandings ''2025-26'' (throwingAt 3 ''Network error'') 1 ''2025-26''
       (exampleWorld (exampleResult 20 13 ScorersFalsy ScorersFalsy) []) =
     (\<lparr>success = False, message = ''Network error''\<rparr>,
      \<lparr>tblfixtures = [exampleFixture],
       tblresults = [exampleResult 20 13 ScorersFalsy ScorersFalsy],
       tblstandings = [], requests = 4\<rparr>)"
  by code_simp

text \<open>
  C7, as amended: after the two reads have been served, the persistence loop issues two
  requests per ranked team. If none of them raises (each is served or refused with any
  status), every team is processed and the operation returns success with "Standings
  updated successfully". If one raises, the first such request ends the run: no later
  request is issued and the operation returns \<open>success = False\<close> with its message.
\<close>

theorem persistence_failures:
  assumes "crudRequest env (requests w) = Served" and "crudRequest env (requests w + 1) = Served"
    and "teams = sortedTeams L (tblfixtures w) (tblresults w)"
    and "n0 = requests w + 2"
    and "run = calculateLeagueStandings S env L S w"
  shows "((\<forall>n m. n0 \<le> n \<and> n < n0 + 2 * length teams \<longrightarrow> crudRequest env n \<noteq> Thrown m) \<longrightarrow>
            fst run = \<lparr>success = True, message = ''Standings updated successfully''\<rparr> \<and>
            requests (snd run) = n0 + 2 * length teams)
       \<and> (\<forall>j m. n0 \<le> j \<and> j < n0 + 2 * length teams \<and> crudRequest env j = Thrown m \<and>
                  (\<forall>i m'. n0 \<le> i \<and> i < j \<longrightarrow> crudRequest env i \<noteq> Thrown m') \<longrightarrow>
            fst run = \<lparr>success = False, message = m\<rparr> \<and> requests (snd run) = j + 1)"
proof -
  let ?w2 = "w\<lparr>requests := requests w + 2\<rparr>"
  let ?p = "persistTeams env L teams ?w2"
  have n0: "requests ?w2 = n0" using assms(4) by simp
  have run: "run = (case ?p of
                      (Some m, w3) \<Rightarrow> (\<lparr>success = False, message = m\<rparr>, w3)
                    | (None, w3) \<Rightarrow>
                        (\<lparr>success = True, message = ''Standings updated successfully''\<rparr>, w3))"
    unfolding assms(5) assms(3) by (rule calculate_after_reads [OF assms(1,2)])
  have a: "fst run = \<lparr>success = True, message = ''Standings updated successfully''\<rparr> \<and>
           requests (snd run) = n0 + 2 * length teams"
    if "\<forall>n m. n0 \<le> n \<and> n < n0 + 2 * length teams \<longrightarrow> crudRequest env n \<noteq> Thrown m"
  proof -
    from that have "\<forall>n m. requests ?w2 \<le> n \<and> n < requests ?w2 + 2 * length teams \<longrightarrow>
                      crudRequest env n \<noteq> Thrown m"
      by (simp only: n0)
    from persistTeams_no_throw [OF this, of L]
    have "fst ?p = None" and "requests (snd ?p) = n0 + 2 * length teams"
      by (simp_all only: n0)
    then show ?thesis
      unfolding run by (cases ?p) auto
  qed
  have b: "fst run = \<lparr>success = False, message = m\<rparr> \<and> requests (snd run) = j + 1"
    if "n0 \<le> j" and "j < n0 + 2 * length teams" and "crudRequest env j = Thrown m"
      and "\<forall>i m'. n0 \<le> i \<and> i < j \<longrightarrow> crudRequest env i \<noteq> Thrown m'" for j m
  proof -
    have 1: "requests ?w2 \<le> j" using that(1) by (simp only: n0)
    have 2: "j < requests ?w2 + 2 * length teams" using that(2) by (simp only: n0)
    have 3: "\<forall>i m'. requests ?w2 \<le> i \<and> i < j \<longrightarrow> crudRequest env i \<noteq> Thrown m'"
      using that(4) by (simp only: n0)
    from persistTeams_first_throw [OF 1 2 that(3) 3, of L]
    have "fst ?p = Some m" and "requests (snd ?p) = j + 1" by simp_all
    then show ?thesis
      unfolding run by (cases ?p) auto
  qed
  from a b show ?thesis by blast
qed

theorem persistence_failures_witness:
  "fst (calculateLeagueStandings ''2025-26'' (refusingAt 3 500) 1 ''2025-26''
          (exampleWorld (exampleResult 20 13 ScorersFalsy ScorersFalsy) [])) =
     \<lparr>success = True, message = ''Standings updated successfully''\<rparr> \<and>
   requests (snd (calculateLeagueStandings ''2025-26'' (refusingAt 3 500) 1 ''2025-26''
          (exampleWorld (exampleResult 20 13 ScorersFalsy ScorersFalsy) []))) = 6 \<and>
   map teamID (tblstandings (snd (calculateLeagueStandings ''2025-26'' (refusingAt 3 500) 1
          ''2025-26'' (exampleWorld (exampleResult 20 13 ScorersFalsy ScorersFalsy) [])))) = [2]"
proof -
  let ?w = "exampleWorld (exampleResult 20 13 ScorersFalsy ScorersFalsy) []"
  have r: "requests ?w = 0" by (simp add: exampleWorld_def)
  have 1: "crudRequest (refusingAt 3 500) (requests ?w) = Served"
    by (simp add: r refusingAt_def crudRequest_def)
  have 2: "crudRequest (refusingAt 3 500) (requests ?w + 1) = Served"
    by (simp add: r refusingAt_def crudRequest_def)
  have 3: "\<forall>n m. requests ?w + 2 \<le> n \<and>
             n < requests ?w + 2 + 2 * length (sortedTeams 1 (tblfixtures ?w) (tblresults ?w)) \<longrightarrow>
             crudRequest (refusingAt 3 500) n \<noteq> Thrown m"
    by (simp add: refusingAt_def crudRequest_def)
  have v: "map teamID (tblstandings (snd (calculateLeagueStandings ''2025-26'' (refusingAt 3 500) 1
          ''2025-26'' ?w))) = [2]" by code_simp
  have l: "length (sortedTeams 1 (tblfixtures ?w) (tblresults ?w)) = 2" by code_simp
  from persistence_failures [OF 1 2 refl refl refl, where L = 1 and S = "''2025-26''"] 3
  have "fst (calculateLeagueStandings ''2025-26'' (refusingAt 3 500) 1 ''2025-26'' ?w) =
          \<lparr>success = True, message = ''Standings updated successfully''\<rparr> \<and>
        requests (snd (calculateLeagueStandings ''2025-26'' (refusingAt 3 500) 1 ''2025-26'' ?w)) =
          requests ?w + 2 + 2 * length (sortedTeams 1 (tblfixtures ?w) (tblresults ?w))"
    by blast
  moreover have "requests ?w + 2 + 2 * length (sortedTeams 1 (tblfixtures ?w) (tblresults ?w)) = 6"
    unfolding r l by simp
  ultimately have "fst (calculateLeagueStandings ''2025-26'' (refusingAt 3 500) 1 ''2025-26'' ?w) =
          \<lparr>success = True, message = ''Standings updated successfully''\<rparr> \<and>
        requests (snd (calculateLeagueStandings ''2025-26'' (refusingAt 3 500) 1 ''2025-26'' ?w)) = 6"
    by (simp only:)
  with v show ?thesis by blast
qed

subsection \<open>Scorer fields that do not decode\<close>

lemma awardTryBonus_undecodable:
  "decodeScorers (homeScorers r) = None \<or> decodeScorers (awayScorers r) = None \<Longrightarrow>
   awardTryBonus h a r st = st"
  by (auto simp add: awardTryBonus_def split: option.splits)

lemma awardTryBonus_empty:
  "awardTryBonus h a (r\<lparr>homeScorers := ScorersFalsy, awayScorers := ScorersFalsy\<rparr>) st = st"
  by (simp add: awardTryBonus_def countTries_def)

text \<open>
  C8, counterexample: a 10-10 draw whose \<^verbatim>\<open>homeScorers\<close> does not decode and whose
  \<^verbatim>\<open>awayScorers\<close> is a JSON string with four tries; the away team ends with no bonus
  point.
\<close>

theorem malformed_home_scorers_counterexample:
  "decodeScorers (ScorersJson (tries 4)) = Some (tries 4) \<and> countTries (tries 4) = 4 \<and>
   map_option bonusPoints
     (map_of (computeStandings 1 [exampleFixture]
                [exampleResult 10 10 ScorersMalformed (ScorersJson (tries 4))]) 2) = Some 0"
  by code_simp

text \<open>
  C8, as amended: when either scorer field of a result fails to decode, the fixture is
  processed as if both fields were empty (no try bonus for either team); and a run on a
  DataStore that serves every request reports success whatever the scorer fields hold.
\<close>

theorem scorer_decoding_guard:
  assumes "rm (fixture_id f) = Some r"
    and "decodeScorers (homeScorers r) = None \<or> decodeScorers (awayScorers r) = None"
  shows "processFixture rm f st =
           processFixture
             (rm(fixture_id f \<mapsto> r\<lparr>homeScorers := ScorersFalsy, awayScorers := ScorersFalsy\<rparr>))
             f st
       \<and> ((\<forall>n. env n = Served) \<longrightarrow>
            fst (calculateLeagueStandings S env L S w) =
              \<lparr>success = True, message = ''Standings updated successfully''\<rparr>)"
proof -
  have "processFixture rm f st =
           processFixture
             (rm(fixture_id f \<mapsto> r\<lparr>homeScorers := ScorersFalsy, awayScorers := ScorersFalsy\<rparr>))
             f st"
    using assms
    by (simp add: processFixture_def awardTryBonus_undecodable awardTryBonus_empty Let_def)
  moreover have "fst (calculateLeagueStandings S env L S w) =
              \<lparr>success = True, message = ''Standings updated successfully''\<rparr>"
    if "\<forall>n. env n = Served"
    by (simp add: calculate_reliable [OF that])
  ultimately show ?thesis by blast
qed

theorem scorer_decoding_guard_witness:
  "processFixture (resultsMap [exampleResult 10 10 ScorersMalformed (ScorersJson (tries 4))])
       exampleFixture (initStandings [1, 2]) =
     processFixture
       ((resultsMap [exampleResult 10 10 ScorersMalformed (ScorersJson (tries 4))])
          (fixture_id exampleFixture \<mapsto>
             (exampleResult 10 10 ScorersMalformed (ScorersJson (tries 4)))
               \<lparr>homeScorers := ScorersFalsy, awayScorers := ScorersFalsy\<rparr>))
       exampleFixture (initStandings [1, 2])
   \<and> fst (calculateLeagueStandings ''2025-26'' reliable 1 ''2025-26''
            (exampleWorld (exampleResult 10 10 ScorersMalformed (ScorersJson (tries 4))) [])) =
       \<lparr>success = True, message = ''Standings updated successfully''\<rparr>"
proof -
  let ?r = "exampleResult 10 10 ScorersMalformed (ScorersJson (tries 4))"
  have 1: "resultsMap [?r] (fixture_id exampleFixture) = Some ?r"
    by (simp add: resultsMap_def exampleResult_def exampleFixture_def)
  have 2: "decodeScorers (homeScorers ?r) = None \<or> decodeScorers (awayScorers ?r) = None"
    by (simp add: exampleResult_def)
  have 3: "\<forall>n. reliable n = Served" by (simp add: reliable_def)
  from scorer_decoding_guard [where rm = "resultsMap [?r]" and f = exampleFixture and r = ?r
      and env = reliable, OF 1 2] 3
  show ?thesis by blast
qed

subsection \<open>A second run\<close>

lemma crudRequest_not_200: "env n \<noteq> Refused 200 \<Longrightarrow> crudRequest env n \<noteq> Refused 200"
  by (auto simp add: crudRequest_def split: outcome.splits if_splits)

lemma sortedTeams_no_fixtures: "sortedTeams L [] ar = []"
  by (simp add: sortedTeams_def computeStandings_def leagueFixtures_def teamIDs_def
      initStandings_def Object_values_def Array_sort_def)

lemma persistTeam_upToDate_fixed:
  assumes "upToDate L t (tblstandings w)"
    and "distinct (map standing_id (tblstandings w))"
    and "\<forall>c. crudRequest env (requests w) \<noteq> Refused c"
  shows "tblstandings (snd (persistTeam env L t w)) = tblstandings w \<and>
         (fst (persistTeam env L t w) = None \<longrightarrow>
            requests (snd (persistTeam env L t w)) = requests w + 2)"
proof (cases "crudRequest env (requests w)")
  case Served
  from assms(1) obtain e
    where f: "find (\<lambda>s. leagueID s = L \<and> teamID s = teamID t) (tblstandings w) = Some e"
    by (auto simp add: upToDate_def split: option.splits)
  show ?thesis
  proof (cases "crudRequest env (requests w + 1)")
    case Served2: Served
    have "upsert L t (tblstandings w) = tblstandings w"
      using assms(1,2) by (rule upsert_upToDate_fixed)
    with persistTeam_served [OF Served Served2, of L t] show ?thesis by simp
  next
    case (Refused c)
    with Served f show ?thesis
      by (simp add: persistTeam_def crudRead_def crudUpdate_def Let_def)
  next
    case (Thrown m)
    with Served f show ?thesis
      by (simp add: persistTeam_def crudRead_def crudUpdate_def Let_def)
  qed
next
  case (Refused c)
  with assms(3) show ?thesis by simp
next
  case (Thrown m)
  then show ?thesis by (simp add: persistTeam_read_throw)
qed

lemma persistTeams_upToDate_fixed:
  assumes "\<forall>t\<in>set ts. upToDate L t (tblstandings w)"
    and "distinct (map standing_id (tblstandings w))"
    and "\<forall>k<length ts. \<forall>c. crudRequest env (requests w + 2 * k) \<noteq> Refused c"
  shows "tblstandings (snd (persistTeams env L ts w)) = tblstandings w"
  using assms
proof (induction ts arbitrary: w)
  case Nil
  then show ?case by simp
next
  case (Cons t ts)
  obtain r w2 where p: "persistTeam env L t w = (r, w2)" by (cases "persistTeam env L t w")
  have u: "upToDate L t (tblstandings w)" using Cons.prems(1) by simp
  have nr: "\<forall>c. crudRequest env (requests w) \<noteq> Refused c"
    using Cons.prems(3) by auto
  from persistTeam_upToDate_fixed [OF u Cons.prems(2) nr] p
  have same: "tblstandings w2 = tblstandings w"
    and req: "r = None \<longrightarrow> requests w2 = requests w + 2" by simp_all
  show ?case
  proof (cases r)
    case None
    with req have r2: "requests w2 = requests w + 2" by simp
    have 1: "\<forall>t\<in>set ts. upToDate L t (tblstandings w2)"
      using Cons.prems(1) same by simp
    have 2: "distinct (map standing_id (tblstandings w2))"
      using Cons.prems(2) same by simp
    have 3: "\<forall>k<length ts. \<forall>c. crudRequest env (requests w2 + 2 * k) \<noteq> Refused c"
    proof (intro allI impI)
      fix k c assume "k < length ts"
      then have "Suc k < length (t # ts)" by simp
      with Cons.prems(3) have "crudRequest env (requests w + 2 * Suc k) \<noteq> Refused c" by blast
      then show "crudRequest env (requests w2 + 2 * k) \<noteq> Refused c" by (simp add: r2)
    qed
    from Cons.IH [OF 1 2 3] same show ?thesis by (simp add: p None)
  next
    case (Some m)
    with same show ?thesis by (simp add: p)
  qed
qed

text \<open>
  C2, counterexample: two pairs of runs with unchanged fixtures and results, as the keys
  (leagueID, teamID) of the rows. In the first pair the create for team 1 is refused
  during the first run (its reply is not looked at), so the second run adds the row the
  first one left out. In the second pair the first run is served throughout and the
  second run's re-read for team 1 is refused (the case of C4), so a second row of league 1
  / team 1 is added.
\<close>

theorem second_run_changes_table_counterexample:
  "map standingKey (tblstandings (snd
      (calculateLeagueStandings ''2025-26'' (refusingAt 3 500) 1 ''2025-26''
         (exampleWorld (exampleResult 20 13 ScorersFalsy ScorersFalsy) [])))) = [(1, 2)] \<and>
   map standingKey (tblstandings (snd
      (calculateLeagueStandings ''2025-26'' reliable 1 ''2025-26'' (snd
      (calculateLeagueStandings ''2025-26'' (refusingAt 3 500) 1 ''2025-26''
         (exampleWorld (exampleResult 20 13 ScorersFalsy ScorersFalsy) [])))))) =
     [(1, 2), (1, 1)] \<and>
   map standingKey (tblstandings (snd
      (calculateLeagueStandings ''2025-26'' reliable 1 ''2025-26'' staleWorld))) =
     [(1, 1), (2, 1), (1, 9), (1, 2)] \<and>
   map standingKey (tblstandings (snd
      (calculateLeagueStandings ''2025-26'' (refusingAt 8 500) 1 ''2025-26'' (snd
      (calculateLeagueStandings ''2025-26'' reliable 1 ''2025-26'' staleWorld))))) =
     [(1, 1), (2, 1), (1, 9), (1, 2), (1, 1)]"
  by code_simp

text \<open>
  C2, as amended: when every request of the first run is served, a second run for the same
  league and the current season leaves \<^verbatim>\<open>tblstandings\<close> exactly as the first run left
  it (same rows, order, ids and values), whatever the DataStore does during the second
  run, as long as none of its per-team re-reads is refused: each run recomputes the totals
  from the fixtures and results and overwrites the row it finds. The ids of the table are
  assumed distinct (its primary key), and a results read answered with status 200 is
  assumed to carry the rows of the unchanged results table.
\<close>

theorem second_run_leaves_table:
  assumes "\<forall>n. env n = Served"
    and "distinct (map standing_id (tblstandings w))"
    and "w1 = snd (calculateLeagueStandings S env L S w)"
    and "teams = sortedTeams L (tblfixtures w) (tblresults w)"
    and "env' (requests w1 + 1) \<noteq> Refused 200"
    and "\<forall>k<length teams. \<forall>c. crudRequest env' (requests w1 + 2 + 2 * k) \<noteq> Refused c"
  shows "tblstandings (snd (calculateLeagueStandings S env' L S w1)) = tblstandings w1"
proof -
  let ?rows = "fold (upsert L) teams (tblstandings w)"
  have w1: "w1 = w\<lparr>tblstandings := ?rows, requests := requests w + 2 + 2 * length teams\<rparr>"
    unfolding assms(3) assms(4) by (simp add: calculate_reliable [OF assms(1)])
  have dt: "distinct (map teamID teams)" unfolding assms(4) by (rule sortedTeams_distinct)
  from fold_upsert_upToDate [OF dt assms(2), of L]
  have d1: "distinct (map standing_id (tblstandings w1))"
    and u1: "\<forall>t\<in>set teams. upToDate L t (tblstandings w1)"
    by (simp_all add: w1)
  have same: "sortedTeams L (tblfixtures w1) (tblresults w1) = teams"
    by (simp add: w1 assms(4))
  let ?w2 = "w1\<lparr>requests := requests w1 + 2\<rparr>"
  have "\<forall>k<length teams. \<forall>c. crudRequest env' (requests ?w2 + 2 * k) \<noteq> Refused c"
    using assms(6) by simp
  with u1 d1 have fixed: "tblstandings (snd (persistTeams env' L teams ?w2)) = tblstandings w1"
    using persistTeams_upToDate_fixed [of teams L ?w2 env'] by simp
  have b: "crudRequest env' (requests w1 + 1) \<noteq> Refused 200"
    using assms(5) by (simp add: crudRequest_not_200)
  show ?thesis
  proof (cases "crudRequest env' (requests w1)")
    case Served
    show ?thesis
    proof (cases "crudRequest env' (requests w1 + 1)")
      case Served2: Served
      from calculate_after_reads [OF Served Served2, of S L] fixed show ?thesis
        by (cases "persistTeams env' L teams ?w2") (auto simp add: same split: option.splits)
    next
      case (Refused c)
      with Served b show ?thesis
        by (simp add: calculateLeagueStandings_def crudRead_def)
    next
      case (Thrown m)
      with Served show ?thesis
        by (simp add: calculateLeagueStandings_def crudRead_def)
    qed
  next
    case (Refused c)
    then show ?thesis
      by (auto simp add: calculateLeagueStandings_def crudRead_def sortedTeams_no_fixtures
            split: outcome.splits)
  next
    case (Thrown m)
    then show ?thesis
      by (simp add: calculateLeagueStandings_def crudRead_def)
  qed
qed

theorem second_run_leaves_table_witness:
  "distinct (map standing_id (tblstandings staleWorld)) \<and>
   fst (calculateLeagueStandings ''2025-26'' (throwingAt 9 ''Network error'') 1 ''2025-26''
          (snd (calculateLeagueStandings ''2025-26'' reliable 1 ''2025-26'' staleWorld))) =
     \<lparr>success = False, message = ''Network error''\<rparr> \<and>
   tblstandings (snd (calculateLeagueStandings ''2025-26'' (throwingAt 9 ''Network error'') 1
                        ''2025-26''
                        (snd (calculateLeagueStandings ''2025-26'' reliable 1 ''2025-26'' staleWorld)))) =
   tblstandings (snd (calculateLeagueStandings ''2025-26'' reliable 1 ''2025-26'' staleWorld))"
proof -
  have r: "\<forall>n. reliable n = Served" by (simp add: reliable_def)
  have d: "distinct (map standing_id (tblstandings staleWorld))" by code_simp
  have n2: "throwingAt 9 ''Network error''
              (requests (snd (calculateLeagueStandings ''2025-26'' reliable 1 ''2025-26''
                                staleWorld)) + 1) \<noteq> Refused 200"
    by (simp add: throwingAt_def)
  have nr: "\<forall>k<length (sortedTeams 1 (tblfixtures staleWorld) (tblresults staleWorld)).
              \<forall>c. crudRequest (throwingAt 9 ''Network error'')
                     (requests (snd (calculateLeagueStandings ''2025-26'' reliable 1 ''2025-26''
                                       staleWorld)) + 2 + 2 * k) \<noteq> Refused c"
    by (simp add: throwingAt_def crudRequest_def)
  have v: "fst (calculateLeagueStandings ''2025-26'' (throwingAt 9 ''Network error'') 1 ''2025-26''
          (snd (calculateLeagueStandings ''2025-26'' reliable 1 ''2025-26'' staleWorld))) =
     \<lparr>success = False, message = ''Network error''\<rparr>" by code_simp
  from second_run_leaves_table [OF r d refl refl n2 nr] d v show ?thesis by blast
qed

end
